theory Spec2Isabelle
  imports Complex_Main "HOL-Library.Word" "HOL-Library.Monad_Syntax"
begin

unbundle bit_operations_syntax

section \<open>Packet classifier (src/modules/classifier/classifier.h, classifier.cpp)\<close>

text \<open>
  \<^verbatim>\<open>core/types.h\<close>: the verdict enumeration.
\<close>

datatype TrafficType = TRAFFIC_TYPE_STANDARD | TRAFFIC_TYPE_HFT | TRAFFIC_TYPE_IGNORE

text \<open>
  The part of \<^verbatim>\<open>struct rte_mbuf\<close> the program touches.  \<open>pkt\<close> is the memory that
  \<^verbatim>\<open>rte_pktmbuf_mtod\<close> points at: the whole data room of the buffer from the first byte
  of the frame onwards (2048 bytes for \<^verbatim>\<open>RTE_MBUF_DEFAULT_BUF_SIZE\<close>), of which only
  the first \<open>data_len\<close> bytes belong to the received frame; the rest is whatever an
  earlier use of the buffer left there.  \<open>refcnt\<close> is the reference count and
  \<open>dynfield1_0\<close> the slot \<^verbatim>\<open>dynfield1[0]\<close> that receives the arrival timestamp.
\<close>

record rte_mbuf =
  pkt :: "8 word list"
  data_len :: nat
  refcnt :: nat
  dynfield1_0 :: "64 word"

text \<open>
  A byte read through a pointer into the buffer.  C does not check the read against
  \<open>data_len\<close>; only a read past the end of the buffer itself has no defined value,
  which is \<open>None\<close> here.
\<close>

definition read_u8 :: "rte_mbuf \<Rightarrow> nat \<Rightarrow> 8 word option" where
  "read_u8 m off = (if off < length (pkt m) then Some (pkt m ! off) else None)"

text \<open>
  \<^verbatim>\<open>rte_be_to_cpu_16\<close> applied to a 16-bit field loaded from memory: the value
  of the two bytes read in network order.
\<close>

definition be16 :: "8 word \<Rightarrow> 8 word \<Rightarrow> 16 word" where
  "be16 hi lo = push_bit 8 (ucast hi) OR ucast lo"

definition read_be16 :: "rte_mbuf \<Rightarrow> nat \<Rightarrow> 16 word option" where
  "read_be16 m off = do {
     hi \<leftarrow> read_u8 m off;
     lo \<leftarrow> read_u8 m (off + 1);
     Some (be16 hi lo)
   }"

text \<open>Field offsets of the DPDK header structs and the constants of the source.\<close>

definition ETHER_HDR_LEN :: nat where "ETHER_HDR_LEN = 14"
definition ETHER_TYPE_OFF :: nat where "ETHER_TYPE_OFF = 12"
definition IPV4_VERSION_IHL_OFF :: nat where "IPV4_VERSION_IHL_OFF = 0"
definition IPV4_NEXT_PROTO_OFF :: nat where "IPV4_NEXT_PROTO_OFF = 9"
definition TCP_SRC_PORT_OFF :: nat where "TCP_SRC_PORT_OFF = 0"
definition TCP_DST_PORT_OFF :: nat where "TCP_DST_PORT_OFF = 2"

definition RTE_ETHER_TYPE_IPV4 :: "16 word" where "RTE_ETHER_TYPE_IPV4 = 0x0800"
definition IPPROTO_UDP :: "8 word" where "IPPROTO_UDP = 17"
definition IPPROTO_TCP :: "8 word" where "IPPROTO_TCP = 6"

text \<open>
  \<^verbatim>\<open>(uint8_t *)ip_hdr + ((ip_hdr->version_ihl & 0xf) * 4)\<close>, as an offset from the
  start of the frame.
\<close>

definition tcp_hdr_off :: "8 word \<Rightarrow> nat" where
  "tcp_hdr_off version_ihl = ETHER_HDR_LEN + unat (version_ihl AND 0xf) * 4"

text \<open>
  \<^verbatim>\<open>HftClassifier::classify\<close>.  The debug printing does not affect the verdict and
  is left out; \<open>target_port_\<close> is never read by the function.  The source contains no
  comparison with the packet length.
\<close>

definition classify :: "rte_mbuf \<Rightarrow> TrafficType option" where
  "classify m = do {
     ether_type \<leftarrow> read_be16 m ETHER_TYPE_OFF;
     if ether_type \<noteq> RTE_ETHER_TYPE_IPV4 then Some TRAFFIC_TYPE_STANDARD
     else do {
       next_proto_id \<leftarrow> read_u8 m (ETHER_HDR_LEN + IPV4_NEXT_PROTO_OFF);
       if next_proto_id = IPPROTO_UDP then Some TRAFFIC_TYPE_STANDARD
       else if next_proto_id = IPPROTO_TCP then do {
         version_ihl \<leftarrow> read_u8 m (ETHER_HDR_LEN + IPV4_VERSION_IHL_OFF);
         src_port \<leftarrow> read_be16 m (tcp_hdr_off version_ihl + TCP_SRC_PORT_OFF);
         dst_port \<leftarrow> read_be16 m (tcp_hdr_off version_ihl + TCP_DST_PORT_OFF);
         if src_port = 8443 \<or> dst_port = 8443 then Some TRAFFIC_TYPE_HFT
         else if src_port = 443 \<or> dst_port = 443 then Some TRAFFIC_TYPE_HFT
         else Some TRAFFIC_TYPE_STANDARD
       }
       else Some TRAFFIC_TYPE_STANDARD
     }
   }"

text \<open>
  The largest offset \<open>classify\<close> can read is \<open>14 + 15 * 4 + 3 = 77\<close>, so a buffer
  with at least 78 bytes of data room makes every read defined.
\<close>

definition CLASSIFY_MAX_READ :: nat where "CLASSIFY_MAX_READ = 78"

subsection \<open>The verdict rules as the specification words them\<close>

text \<open>
  The header fields the rules speak about, at the places the wire formats put them;
  the TCP ports sit at the offset computed from IHL.
\<close>

definition field_u8 :: "rte_mbuf \<Rightarrow> nat \<Rightarrow> 8 word" where
  "field_u8 m off = pkt m ! off"

definition field_be16 :: "rte_mbuf \<Rightarrow> nat \<Rightarrow> 16 word" where
  "field_be16 m off = be16 (pkt m ! off) (pkt m ! (off + 1))"

definition eth_type_of :: "rte_mbuf \<Rightarrow> 16 word" where
  "eth_type_of m = field_be16 m 12"

definition ip_proto_of :: "rte_mbuf \<Rightarrow> 8 word" where
  "ip_proto_of m = field_u8 m 23"

definition ip_ihl_of :: "rte_mbuf \<Rightarrow> nat" where
  "ip_ihl_of m = unat (field_u8 m 14 AND 0xf)"

definition tcp_src_port_of :: "rte_mbuf \<Rightarrow> 16 word" where
  "tcp_src_port_of m = field_be16 m (14 + 4 * ip_ihl_of m)"

definition tcp_dst_port_of :: "rte_mbuf \<Rightarrow> 16 word" where
  "tcp_dst_port_of m = field_be16 m (14 + 4 * ip_ihl_of m + 2)"

definition HFT_PORTS :: "16 word set" where
  "HFT_PORTS = {8443, 443}"

definition spec_verdict :: "rte_mbuf \<Rightarrow> TrafficType" where
  "spec_verdict m =
     (if eth_type_of m \<noteq> 0x0800 then TRAFFIC_TYPE_STANDARD
      else if ip_proto_of m = 17 then TRAFFIC_TYPE_STANDARD
      else if ip_proto_of m = 6 \<and>
              (tcp_src_port_of m \<in> HFT_PORTS \<or> tcp_dst_port_of m \<in> HFT_PORTS)
           then TRAFFIC_TYPE_HFT
      else TRAFFIC_TYPE_STANDARD)"

text \<open>
  What a bounds check on the headers would test, in the specification's words
  (``header bounds fail''): the frame holds the Ethernet header; an IPv4 frame holds an
  IPv4 header of at least 20 bytes as long as its IHL says; a TCP segment holds the
  20-byte TCP header behind it.
\<close>

definition header_bounds_ok :: "rte_mbuf \<Rightarrow> bool" where
  "header_bounds_ok m \<longleftrightarrow>
     14 \<le> data_len m \<and>
     (eth_type_of m = 0x0800 \<longrightarrow>
        5 \<le> ip_ihl_of m \<and> 14 + 4 * ip_ihl_of m \<le> data_len m \<and>
        (ip_proto_of m = 6 \<longrightarrow> 14 + 4 * ip_ihl_of m + 20 \<le> data_len m))"

text \<open>
  Two concrete frames.  \<open>tcp_443_frame\<close> is a complete Ethernet/IPv4/TCP frame to port
  443.  \<open>truncated_frame\<close> is a 34-byte frame that ends after its IPv4 header (no TCP
  header was received); the buffer bytes behind the frame are left over from an earlier
  packet and happen to read as port 443.
\<close>

definition frame_prefix :: "8 word list" where
  "frame_prefix =
     [0x02, 0, 0, 0, 0, 0x01,  0x02, 0, 0, 0, 0, 0x02,  0x08, 0x00,
      0x45, 0, 0, 0x28,  0, 0, 0, 0,  0x40, 0x06, 0, 0,
      10, 0, 0, 1,  10, 0, 0, 2]"

definition frame_rest :: "8 word list" where
  "frame_rest =
     [0xC0, 0x00, 0x01, 0xBB,  0, 0, 0, 1,  0, 0, 0, 0,  0x50, 0x10, 0xFF, 0xFF,
      0, 0, 0, 0,
      0, 0, 0, 0, 0, 0, 0, 0, 0, 0, 0, 0,
      0, 0, 0, 0, 0, 0, 0, 0, 0, 0, 0, 0]"

definition tcp_443_frame :: rte_mbuf where
  "tcp_443_frame =
     \<lparr>pkt = frame_prefix @ frame_rest, data_len = 54, refcnt = 1, dynfield1_0 = 0\<rparr>"

definition truncated_frame :: rte_mbuf where
  "truncated_frame =
     \<lparr>pkt = frame_prefix @ frame_rest, data_len = 34, refcnt = 1, dynfield1_0 = 0\<rparr>"

section \<open>Forwarding dataplane (src/core/forwarding.cpp)\<close>

text \<open>
  Packet handles are pointers to \<^verbatim>\<open>struct rte_mbuf\<close>; \<open>mem\<close> is the memory they
  point into.  The DPDK primitives the loop calls are not part of the repository.
  They are modelled by their documented contract:
  \<^item> \<^verbatim>\<open>rte_pktmbuf_refcnt_update(m, v)\<close> adds \<open>v\<close> to the reference count;
  \<^item> \<^verbatim>\<open>rte_pktmbuf_free(m)\<close> gives up one reference, the buffer going back to the
    pool when the count reaches zero; giving up a reference of a buffer whose count is
    already zero is the double free, an error value here;
  \<^item> \<^verbatim>\<open>rte_ring_sp_enqueue(r, obj)\<close> appends to a bounded FIFO and fails, without
    blocking, when the ring is full;
  \<^item> \<^verbatim>\<open>rte_eth_tx_burst\<close> takes over the first \<open>nb_tx\<close> handles of the batch, with
    the reference the caller held on each, and leaves the others to the caller.
  \<open>calls\<close> records the reference-count and ring calls the loop makes, in order.
\<close>

type_synonym mbuf_ptr = nat

datatype dp_call =
    Call_refcnt_update mbuf_ptr int
  | Call_ring_sp_enqueue mbuf_ptr bool
  | Call_pktmbuf_free mbuf_ptr

datatype dp_error = DoubleFree mbuf_ptr | ReadOutsideBuffer mbuf_ptr

record dataplane =
  mem :: "mbuf_ptr \<Rightarrow> rte_mbuf"
  hft_ring :: "mbuf_ptr list"
  ring_capacity :: nat
  kernel_tx_burst :: "mbuf_ptr list"
  virt_tx_queue :: "mbuf_ptr list"
  calls :: "dp_call list"
  fail_count :: nat
  rx_phy_total :: nat
  tx_virt_total :: nat

definition BURST_SIZE :: nat where "BURST_SIZE = 32"

definition rte_pktmbuf_refcnt_update :: "mbuf_ptr \<Rightarrow> int \<Rightarrow> dataplane \<Rightarrow> dataplane" where
  "rte_pktmbuf_refcnt_update p v s =
     s\<lparr>mem := (mem s)(p := (mem s p)\<lparr>refcnt := nat (int (refcnt (mem s p)) + v)\<rparr>),
       calls := calls s @ [Call_refcnt_update p v]\<rparr>"

definition rte_pktmbuf_free :: "mbuf_ptr \<Rightarrow> dataplane \<Rightarrow> dp_error + dataplane" where
  "rte_pktmbuf_free p s =
     (if refcnt (mem s p) = 0 then Inl (DoubleFree p)
      else Inr (s\<lparr>mem := (mem s)(p := (mem s p)\<lparr>refcnt := refcnt (mem s p) - 1\<rparr>),
                  calls := calls s @ [Call_pktmbuf_free p]\<rparr>))"

definition rte_ring_sp_enqueue :: "mbuf_ptr \<Rightarrow> dataplane \<Rightarrow> bool \<times> dataplane" where
  "rte_ring_sp_enqueue p s =
     (if length (hft_ring s) < ring_capacity s
      then (True, s\<lparr>hft_ring := hft_ring s @ [p],
                     calls := calls s @ [Call_ring_sp_enqueue p True]\<rparr>)
      else (False, s\<lparr>calls := calls s @ [Call_ring_sp_enqueue p False]\<rparr>))"

text \<open>The body of the \<^verbatim>\<open>for\<close> loop over the received burst, for one packet.\<close>

definition forward_packet :: "64 word \<Rightarrow> mbuf_ptr \<Rightarrow> dataplane \<Rightarrow> dp_error + dataplane" where
  "forward_packet rx_timestamp p s0 =
     (let s = s0\<lparr>mem := (mem s0)(p := (mem s0 p)\<lparr>dynfield1_0 := rx_timestamp\<rparr>)\<rparr> in
      case classify (mem s p) of
        None \<Rightarrow> Inl (ReadOutsideBuffer p)
      | Some type \<Rightarrow>
          if type = TRAFFIC_TYPE_HFT then
            (let (ok, s2) = rte_ring_sp_enqueue p (rte_pktmbuf_refcnt_update p 1 s) in
             case (if ok then Inr s2
                   else rte_pktmbuf_free p (s2\<lparr>fail_count := fail_count s2 + 1\<rparr>)) of
               Inl e \<Rightarrow> Inl e
             | Inr s3 \<Rightarrow> Inr (s3\<lparr>kernel_tx_burst := kernel_tx_burst s3 @ [p]\<rparr>))
          else Inr (s\<lparr>kernel_tx_burst := kernel_tx_burst s @ [p]\<rparr>))"

fun forward_packets :: "64 word \<Rightarrow> mbuf_ptr list \<Rightarrow> dataplane \<Rightarrow> dp_error + dataplane" where
  "forward_packets rx_timestamp [] s = Inr s"
| "forward_packets rx_timestamp (p # ps) s =
     (case forward_packet rx_timestamp p s of
        Inl e \<Rightarrow> Inl e
      | Inr s' \<Rightarrow> forward_packets rx_timestamp ps s')"

fun free_all :: "mbuf_ptr list \<Rightarrow> dataplane \<Rightarrow> dp_error + dataplane" where
  "free_all [] s = Inr s"
| "free_all (p # ps) s =
     (case rte_pktmbuf_free p s of Inl e \<Rightarrow> Inl e | Inr s' \<Rightarrow> free_all ps s')"

text \<open>
  The batch transmit to the virtual port.  \<open>virt_port\<close> says whether
  \<^verbatim>\<open>virt_port_id != RTE_MAX_ETHPORTS\<close>; \<open>accept\<close> is the number of handles the driver
  takes, which \<^verbatim>\<open>rte_eth_tx_burst\<close> bounds by the number offered.
\<close>

definition tx_kernel_batch :: "bool \<Rightarrow> nat \<Rightarrow> dataplane \<Rightarrow> dp_error + dataplane" where
  "tx_kernel_batch virt_port accept s =
     (let k_idx = length (kernel_tx_burst s) in
      if k_idx > 0 then
        if virt_port then
          (let nb_tx = min accept k_idx;
               s1 = s\<lparr>virt_tx_queue := virt_tx_queue s @ take nb_tx (kernel_tx_burst s),
                      tx_virt_total := tx_virt_total s + nb_tx\<rparr>
           in if nb_tx < k_idx then free_all (drop nb_tx (kernel_tx_burst s)) s1 else Inr s1)
        else free_all (kernel_tx_burst s) s
      else Inr s)"

text \<open>
  Step 1 of one iteration of \<^verbatim>\<open>lcore_forward_loop\<close>: \<open>burst\<close> is what
  \<^verbatim>\<open>rte_eth_rx_burst\<close> delivered from the physical port (at most \<open>BURST_SIZE\<close>
  handles), \<open>rx_timestamp\<close> the cycle counter read once for the burst.
\<close>

definition ingress_step ::
  "mbuf_ptr list \<Rightarrow> 64 word \<Rightarrow> bool \<Rightarrow> nat \<Rightarrow> dataplane \<Rightarrow> dp_error + dataplane" where
  "ingress_step burst rx_timestamp virt_port accept s0 =
     (let nb_rx = length burst;
          s = s0\<lparr>rx_phy_total := rx_phy_total s0 + nb_rx\<rparr>
      in if nb_rx > 0 then
           (case forward_packets rx_timestamp burst (s\<lparr>kernel_tx_burst := []\<rparr>) of
              Inl e \<Rightarrow> Inl e
            | Inr s' \<Rightarrow> tx_kernel_batch virt_port accept s')
         else Inr s)"

text \<open>
  Vocabulary for the accounting: the packets of a burst the classifier marks FAST, the
  free slots of the ring, and the handles the driver took from a batch.
\<close>

definition is_fast :: "dataplane \<Rightarrow> mbuf_ptr \<Rightarrow> bool" where
  "is_fast s p \<longleftrightarrow> classify (mem s p) = Some TRAFFIC_TYPE_HFT"

definition ring_room :: "dataplane \<Rightarrow> nat" where
  "ring_room s = ring_capacity s - length (hft_ring s)"

definition driver_took :: "bool \<Rightarrow> nat \<Rightarrow> mbuf_ptr list \<Rightarrow> mbuf_ptr list" where
  "driver_took virt_port accept batch = (if virt_port then take accept batch else [])"

text \<open>
  A handle as \<^verbatim>\<open>rte_eth_rx_burst\<close> delivers it: one reference, held by the
  receiver, and nobody else holding the buffer.
\<close>

definition fresh_handle :: "dataplane \<Rightarrow> mbuf_ptr \<Rightarrow> bool" where
  "fresh_handle s p \<longleftrightarrow>
     refcnt (mem s p) = 1 \<and> p \<notin> set (hft_ring s) \<and> p \<notin> set (virt_tx_queue s) \<and>
     CLASSIFY_MAX_READ \<le> length (pkt (mem s p))"

text \<open>
  A concrete dataplane: handles 1 and 2 carry the TCP frame to port 443, every other
  handle an all-zero frame; the ring has one free slot.
\<close>

definition zero_frame :: rte_mbuf where
  "zero_frame = \<lparr>pkt = replicate 78 0, data_len = 60, refcnt = 1, dynfield1_0 = 0\<rparr>"

definition example_dataplane :: dataplane where
  "example_dataplane =
     \<lparr>mem = (\<lambda>p. if p = 1 \<or> p = 2 then tcp_443_frame else zero_frame),
      hft_ring = [], ring_capacity = 1, kernel_tx_burst = [], virt_tx_queue = [],
      calls = [], fail_count = 0, rx_phy_total = 0, tx_virt_total = 0\<rparr>"

section \<open>Order book (src/modules/market_data/order_book.h, order_book.cpp)\<close>

text \<open>
  A C++ \<^verbatim>\<open>double\<close> is carried as its IEEE-754 binary64 bit pattern: the order book
  only stores sizes, compares them with zero and copies them, and the UDP publisher
  copies their bytes.  The comparisons with \<^verbatim>\<open>0.0\<close> are written out on the bits: a
  NaN (exponent all ones, fraction not zero) compares false both ways, and both zeros
  are \<open>\<le> 0\<close>.
\<close>

type_synonym double = "64 word"

definition double_is_nan :: "double \<Rightarrow> bool" where
  "double_is_nan x \<longleftrightarrow>
     x AND 0x7FF0000000000000 = 0x7FF0000000000000 \<and> x AND 0x000FFFFFFFFFFFFF \<noteq> 0"

definition double_is_zero :: "double \<Rightarrow> bool" where
  "double_is_zero x \<longleftrightarrow> x AND 0x7FFFFFFFFFFFFFFF = 0"

definition double_sign :: "double \<Rightarrow> bool" where
  "double_sign x \<longleftrightarrow> x AND 0x8000000000000000 \<noteq> 0"

text \<open>\<^verbatim>\<open>x <= 0.0\<close> and \<^verbatim>\<open>x > 0.0\<close>.\<close>

definition double_le_zero :: "double \<Rightarrow> bool" where
  "double_le_zero x \<longleftrightarrow> \<not> double_is_nan x \<and> (double_is_zero x \<or> double_sign x)"

definition double_gt_zero :: "double \<Rightarrow> bool" where
  "double_gt_zero x \<longleftrightarrow> \<not> double_is_nan x \<and> \<not> double_is_zero x \<and> \<not> double_sign x"

text \<open>
  \<^verbatim>\<open>static_cast<double>(uint64_t)\<close>: the nearest binary64 value, ties to even.
  \<open>msb_index\<close> is the position of the highest set bit.
\<close>

fun msb_index :: "nat \<Rightarrow> nat" where
  "msb_index n = (if n < 2 then 0 else Suc (msb_index (n div 2)))"

declare msb_index.simps [simp del]

definition u64_to_double :: "64 word \<Rightarrow> double" where
  "u64_to_double x =
     (if x = 0 then 0
      else
        let n = unat x;
            e = msb_index n;
            biased = (1023 + e) * 2 ^ 52
        in if e \<le> 52 then word_of_nat (biased + (n * 2 ^ (52 - e) - 2 ^ 52))
           else
             let sh = e - 52;
                 q = n div 2 ^ sh;
                 r = n mod 2 ^ sh;
                 half = 2 ^ (sh - 1);
                 q' = (if half < r \<or> (r = half \<and> odd q) then q + 1 else q)
             in word_of_nat (biased + (q' - 2 ^ 52)))"

text \<open>\<^verbatim>\<open>json_parser.h\<close>: one level update.\<close>

datatype Side = BID | ASK

record OrderBookUpdate =
  price_int :: "64 word"
  quantity :: double
  side :: Side
  is_delete :: bool

text \<open>
  \<^verbatim>\<open>std::map<uint64_t, double, Compare>\<close> is a list of (key, value) pairs kept sorted
  by the comparison \<open>lt\<close> with no two equivalent keys: \<open>bids_map\<close> (the member \<^verbatim>\<open>bids_\<close>) uses
  \<^verbatim>\<open>std::greater\<close>, \<open>asks_map\<close> (\<^verbatim>\<open>asks_\<close>) uses \<^verbatim>\<open>std::less\<close>, and \<^verbatim>\<open>begin()\<close> is the head.
  \<open>map_assign\<close> is \<^verbatim>\<open>m[k] = v\<close>, \<open>map_erase\<close> is \<^verbatim>\<open>m.erase(k)\<close>; both walk the
  ordered structure by comparisons, as the tree does.
\<close>

type_synonym ('k, 'v) std_map = "('k \<times> 'v) list"

fun map_assign :: "('k \<Rightarrow> 'k \<Rightarrow> bool) \<Rightarrow> 'k \<Rightarrow> 'v \<Rightarrow> ('k, 'v) std_map \<Rightarrow> ('k, 'v) std_map" where
  "map_assign lt k v [] = [(k, v)]"
| "map_assign lt k v ((k', v') # m) =
     (if lt k k' then (k, v) # (k', v') # m
      else if lt k' k then (k', v') # map_assign lt k v m
      else (k, v) # m)"

fun map_erase :: "('k \<Rightarrow> 'k \<Rightarrow> bool) \<Rightarrow> 'k \<Rightarrow> ('k, 'v) std_map \<Rightarrow> ('k, 'v) std_map" where
  "map_erase lt k [] = []"
| "map_erase lt k ((k', v') # m) =
     (if lt k k' then (k', v') # m
      else if lt k' k then (k', v') # map_erase lt k m
      else m)"

text \<open>The comparisons a \<^verbatim>\<open>std::map\<close> may be ordered by: strict total orders.\<close>

definition strict_linear :: "('k \<Rightarrow> 'k \<Rightarrow> bool) \<Rightarrow> bool" where
  "strict_linear lt \<longleftrightarrow>
     (\<forall>a. \<not> lt a a) \<and> (\<forall>a b c. lt a b \<longrightarrow> lt b c \<longrightarrow> lt a c) \<and>
     (\<forall>a b. lt a b \<or> a = b \<or> lt b a)"

definition greater_u64 :: "64 word \<Rightarrow> 64 word \<Rightarrow> bool" where
  "greater_u64 a b \<longleftrightarrow> b < a"

definition less_u64 :: "64 word \<Rightarrow> 64 word \<Rightarrow> bool" where
  "less_u64 a b \<longleftrightarrow> a < b"

record OrderBook =
  bids_map :: "(64 word, double) std_map"
  asks_map :: "(64 word, double) std_map"

record BestBidOffer =
  bid_price :: "64 word"
  bid_qty :: double
  ask_price :: "64 word"
  ask_qty :: double

definition empty_book :: OrderBook where
  "empty_book = \<lparr>bids_map = [], asks_map = []\<rparr>"

definition clear :: "OrderBook \<Rightarrow> OrderBook" where
  "clear b = b\<lparr>bids_map := [], asks_map := []\<rparr>"

definition apply_update_internal :: "OrderBookUpdate \<Rightarrow> OrderBook \<Rightarrow> OrderBook" where
  "apply_update_internal update b =
     (let del = is_delete update \<or> double_le_zero (quantity update) in
      if side update = BID then
        (if del then b\<lparr>bids_map := map_erase greater_u64 (price_int update) (bids_map b)\<rparr>
         else b\<lparr>bids_map := map_assign greater_u64 (price_int update) (quantity update) (bids_map b)\<rparr>)
      else
        (if del then b\<lparr>asks_map := map_erase less_u64 (price_int update) (asks_map b)\<rparr>
         else b\<lparr>asks_map := map_assign less_u64 (price_int update) (quantity update) (asks_map b)\<rparr>))"

fun apply_each :: "OrderBookUpdate list \<Rightarrow> OrderBook \<Rightarrow> OrderBook" where
  "apply_each [] b = b"
| "apply_each (update # updates) b = apply_each updates (apply_update_internal update b)"

definition apply_snapshot :: "OrderBookUpdate list \<Rightarrow> OrderBook \<Rightarrow> OrderBook" where
  "apply_snapshot updates b = apply_each updates (b\<lparr>bids_map := [], asks_map := []\<rparr>)"

definition apply_updates :: "OrderBookUpdate list \<Rightarrow> OrderBook \<Rightarrow> OrderBook" where
  "apply_updates updates b = apply_each updates b"

definition apply_update :: "OrderBookUpdate \<Rightarrow> OrderBook \<Rightarrow> OrderBook" where
  "apply_update update b = apply_update_internal update b"

text \<open>
  \<^verbatim>\<open>OrderBook::get_bbo\<close> writes through the reference \<open>bbo\<close> only when both sides are
  non-empty; the result is the returned flag with the caller's \<open>bbo\<close> afterwards.
\<close>

definition get_bbo :: "OrderBook \<Rightarrow> BestBidOffer \<Rightarrow> bool \<times> BestBidOffer" where
  "get_bbo b bbo =
     (if bids_map b = [] \<or> asks_map b = [] then (False, bbo)
      else
        let best_bid = hd (bids_map b); best_ask = hd (asks_map b) in
        (True, bbo\<lparr>bid_price := fst best_bid, bid_qty := snd best_bid,
                   ask_price := fst best_ask, ask_qty := snd best_ask\<rparr>))"

text \<open>
  \<^verbatim>\<open>OrderBookManager\<close>: \<^verbatim>\<open>std::map<ExchangeId, std::map<std::string, OrderBook>>\<close>.
  \<^verbatim>\<open>books_[exchange][instrument]\<close> creates the inner map and an empty book on first
  touch.
\<close>

datatype ExchangeId = OKX | BYBIT | BINANCE | GATE | BITGET | MEXC | UNKNOWN

type_synonym OrderBookManager = "ExchangeId \<rightharpoonup> (string \<rightharpoonup> OrderBook)"

definition get_book ::
  "ExchangeId \<Rightarrow> string \<Rightarrow> OrderBookManager \<Rightarrow> OrderBook \<times> OrderBookManager" where
  "get_book exchange instrument books =
     (let inner = (case books exchange of None \<Rightarrow> Map.empty | Some i \<Rightarrow> i);
          book = (case inner instrument of None \<Rightarrow> empty_book | Some b \<Rightarrow> b)
      in (book, books(exchange \<mapsto> inner(instrument \<mapsto> book))))"

text \<open>
  \<^verbatim>\<open>OrderBookManager::get_best_prices\<close>.  The four output parameters are passed in
  and returned; \<open>uninit\<close> is the content of the local \<^verbatim>\<open>BestBidOffer bbo\<close> before
  \<^verbatim>\<open>get_bbo\<close> fills it.
\<close>

record best_prices_out =
  out_bid_price :: double
  out_bid_qty :: double
  out_ask_price :: double
  out_ask_qty :: double

definition get_best_prices ::
  "ExchangeId \<Rightarrow> string \<Rightarrow> best_prices_out \<Rightarrow> BestBidOffer \<Rightarrow> OrderBookManager \<Rightarrow>
     bool \<times> best_prices_out \<times> OrderBookManager" where
  "get_best_prices exchange instrument out uninit books =
     (let (book, books') = get_book exchange instrument books;
          (found, bbo) = get_bbo book uninit
      in if found then
           (True,
            out\<lparr>out_bid_price := u64_to_double (bid_price bbo), out_bid_qty := bid_qty bbo,
                out_ask_price := u64_to_double (ask_price bbo), out_ask_qty := ask_qty bbo\<rparr>,
            books')
         else (False, out, books'))"

subsection \<open>Vocabulary for the order-book properties\<close>


definition wf_book :: "OrderBook \<Rightarrow> bool" where
  "wf_book b \<longleftrightarrow>
     sorted_wrt greater_u64 (map fst (bids_map b)) \<and>
     sorted_wrt less_u64 (map fst (asks_map b))"

definition disjoint_sides :: "OrderBook \<Rightarrow> bool" where
  "disjoint_sides b \<longleftrightarrow> fst ` set (bids_map b) \<inter> fst ` set (asks_map b) = {}"

definition sizes_positive :: "OrderBook \<Rightarrow> bool" where
  "sizes_positive b \<longleftrightarrow>
     list_all (\<lambda>kv. double_gt_zero (snd kv)) (bids_map b) \<and>
     list_all (\<lambda>kv. double_gt_zero (snd kv)) (asks_map b)"

definition sizes_not_le_zero :: "OrderBook \<Rightarrow> bool" where
  "sizes_not_le_zero b \<longleftrightarrow>
     list_all (\<lambda>kv. \<not> double_le_zero (snd kv)) (bids_map b) \<and>
     list_all (\<lambda>kv. \<not> double_le_zero (snd kv)) (asks_map b)"


definition removes_level :: "OrderBookUpdate \<Rightarrow> bool" where
  "removes_level u \<longleftrightarrow> is_delete u \<or> double_le_zero (quantity u)"




text \<open>Sample sizes (1.5, 2.0, 0.5, a quiet NaN) and sample updates.\<close>

definition d_1_5 :: double where "d_1_5 = 0x3FF8000000000000"
definition d_2_0 :: double where "d_2_0 = 0x4000000000000000"
definition d_0_5 :: double where "d_0_5 = 0x3FE0000000000000"
definition d_nan :: double where "d_nan = 0x7FF8000000000000"

definition bid_100 :: OrderBookUpdate where
  "bid_100 = \<lparr>price_int = 100, quantity = d_1_5, side = BID, is_delete = False\<rparr>"

definition ask_100 :: OrderBookUpdate where
  "ask_100 = \<lparr>price_int = 100, quantity = d_2_0, side = ASK, is_delete = False\<rparr>"

definition ask_101 :: OrderBookUpdate where
  "ask_101 = \<lparr>price_int = 101, quantity = d_0_5, side = ASK, is_delete = False\<rparr>"

definition bid_100_flagged :: OrderBookUpdate where
  "bid_100_flagged = \<lparr>price_int = 100, quantity = d_1_5, side = BID, is_delete = True\<rparr>"

definition bid_100_zero :: OrderBookUpdate where
  "bid_100_zero = \<lparr>price_int = 100, quantity = 0, side = BID, is_delete = True\<rparr>"

definition bid_99_nan :: OrderBookUpdate where
  "bid_99_nan = \<lparr>price_int = 99, quantity = d_nan, side = BID, is_delete = False\<rparr>"

text \<open>
  The book \<^verbatim>\<open>get_book\<close> addresses: the stored one, or the empty book it creates.
\<close>

definition addressed_book :: "ExchangeId \<Rightarrow> string \<Rightarrow> OrderBookManager \<Rightarrow> OrderBook" where
  "addressed_book exchange instrument books = fst (get_book exchange instrument books)"

text \<open>
  A manager holding one Bybit book: best bid 60000.5 and best ask 60001.0, as the
  integer keys 6000050000000 and 6000100000000.
\<close>

definition sample_book :: OrderBook where
  "sample_book =
     \<lparr>bids_map = [(6000050000000, d_1_5), (6000000000000, d_2_0)],
      asks_map = [(6000100000000, d_0_5)]\<rparr>"

definition sample_manager :: OrderBookManager where
  "sample_manager = [BYBIT \<mapsto> [''BTCUSDT'' \<mapsto> sample_book]]"

definition zero_out :: best_prices_out where
  "zero_out = \<lparr>out_bid_price = 0, out_bid_qty = 0, out_ask_price = 0, out_ask_qty = 0\<rparr>"

definition zero_bbo :: BestBidOffer where
  "zero_bbo = \<lparr>bid_price = 0, bid_qty = 0, ask_price = 0, ask_qty = 0\<rparr>"

section \<open>WebSocket session (src/modules/network/boost_websocket_client.h, .cpp)\<close>

text \<open>
  All socket work of \<^verbatim>\<open>BoostWebSocketClient\<close> runs on the one thread that drives
  \<^verbatim>\<open>ioc_\<close>: every completion handler runs to its end before the next one starts.
  The model is therefore a sequential machine.  Its inputs are the completions the
  environment delivers (the retry timer firing, and the results of resolve, TCP connect,
  TLS handshake, WebSocket handshake and read); \<open>pending\<close> is the asynchronous
  operation currently outstanding, and a completion is delivered only for the
  outstanding operation.  \<open>trace\<close> records, in order, each completion delivered and each
  effect a handler has on the outside (arming the timer, starting an asynchronous
  operation, invoking the reconnect callback, putting a message on the inbound queue).
\<close>

datatype ConnectionState = Disconnected | Connecting | Connected | WaitingRetry

datatype async_op =
    Op_retry_timer | Op_resolve | Op_connect | Op_ssl_handshake | Op_ws_handshake | Op_read

text \<open>
  A completion carries what the handler inspects: whether the error code is clear and,
  for a read, the message text.  \<open>TimerFired sni_ok\<close> also carries the result of
  \<^verbatim>\<open>SSL_set_tlsext_host_name\<close>, which \<^verbatim>\<open>attempt_reconnect_async\<close> calls first.
\<close>

datatype completion =
    TimerFired bool
  | ResolveDone bool
  | ConnectDone bool
  | SslHandshakeDone bool
  | HandshakeDone bool
  | ReadDone "string option"

datatype effect =
    Timer_expires_after int
  | Stream_created
  | Async_resolve
  | Async_connect
  | Async_ssl_handshake
  | Async_ws_handshake
  | On_reconnect_called
  | Async_read
  | Enqueued string
  | Dropped

datatype trace_item = In completion | Out effect

record ws_client =
  retry_enabled :: bool
  retry_max_attempts :: int
  retry_initial_delay_ms :: int
  retry_max_delay_ms :: int
  retry_backoff_multiplier :: real
  retry_count :: int
  connected :: bool
  connection_state :: ConnectionState
  reconnect_attempts :: nat
  reconnect_success :: nat
  on_reconnect_set :: bool
  incoming_queue :: "string list"
  drop_count :: nat
  pending :: "async_op option"
  trace :: "trace_item list"

definition MAX_INCOMING_QUEUE_SIZE :: nat where "MAX_INCOMING_QUEUE_SIZE = 10000"

definition emit :: "effect \<Rightarrow> ws_client \<Rightarrow> ws_client" where
  "emit a s = s\<lparr>trace := trace s @ [Out a]\<rparr>"

text \<open>
  The delay computation of \<^verbatim>\<open>schedule_reconnect\<close>:
  \<^verbatim>\<open>double delay = initial; for (int i = 1; i < retry_count_; ++i) delay *= multiplier;\<close>
  \<^verbatim>\<open>if (delay > max) delay = max;\<close> and then \<^verbatim>\<open>(long)delay\<close>, which truncates towards
  zero.  The \<^verbatim>\<open>double\<close> arithmetic is idealised as real arithmetic; for the reference
  parameters every intermediate value is an integer below \<open>2^53\<close>, where the two agree.
\<close>

function backoff_loop :: "int \<Rightarrow> int \<Rightarrow> real \<Rightarrow> real \<Rightarrow> real" where
  "backoff_loop i n multiplier delay =
     (if i < n then backoff_loop (i + 1) n multiplier (delay * multiplier) else delay)"
  by pat_completeness auto
termination
  by (relation "measure (\<lambda>(i, n, m, d). nat (n - i))") auto

declare backoff_loop.simps [simp del]

definition long_of_double :: "real \<Rightarrow> int" where
  "long_of_double d = (if 0 \<le> d then \<lfloor>d\<rfloor> else \<lceil>d\<rceil>)"

definition backoff_delay_ms :: "ws_client \<Rightarrow> int \<Rightarrow> int" where
  "backoff_delay_ms s count =
     (let delay = backoff_loop 1 count (retry_backoff_multiplier s)
                    (real_of_int (retry_initial_delay_ms s));
          capped = (if delay > real_of_int (retry_max_delay_ms s)
                    then real_of_int (retry_max_delay_ms s) else delay)
      in long_of_double capped)"

definition schedule_reconnect :: "ws_client \<Rightarrow> ws_client" where
  "schedule_reconnect s =
     (if retry_count s \<ge> retry_max_attempts s
      then s\<lparr>connection_state := Disconnected, pending := None\<rparr>
      else
        let s1 = s\<lparr>connection_state := WaitingRetry,
                   retry_count := retry_count s + 1,
                   reconnect_attempts := reconnect_attempts s + 1\<rparr>
        in emit (Timer_expires_after (backoff_delay_ms s1 (retry_count s1)))
             (s1\<lparr>pending := Some Op_retry_timer\<rparr>))"

text \<open>
  \<^verbatim>\<open>close()\<close> clears \<open>connected_\<close> and stops the I/O context: nothing is outstanding
  afterwards.
\<close>

definition close :: "ws_client \<Rightarrow> ws_client" where
  "close s = s\<lparr>connected := False, pending := None\<rparr>"

definition do_read :: "ws_client \<Rightarrow> ws_client" where
  "do_read s = emit Async_read (s\<lparr>pending := Some Op_read\<rparr>)"

text \<open>
  The synchronous \<^verbatim>\<open>connect()\<close>: \<open>ok\<close> says whether resolve, TCP connect and both
  handshakes went through without an exception.
\<close>

definition connect :: "bool \<Rightarrow> ws_client \<Rightarrow> bool \<times> ws_client" where
  "connect ok s0 =
     (let s = s0\<lparr>connection_state := Connecting, connected := False\<rparr> in
      if ok then
        (True, do_read (s\<lparr>connected := True, connection_state := Connected, retry_count := 0\<rparr>))
      else
        (False, if retry_enabled s then schedule_reconnect s
                else s\<lparr>connection_state := Disconnected\<rparr>))"

definition attempt_reconnect_async :: "bool \<Rightarrow> ws_client \<Rightarrow> ws_client" where
  "attempt_reconnect_async sni_ok s0 =
     (let s = emit Stream_created (s0\<lparr>connection_state := Connecting\<rparr>) in
      if \<not> sni_ok then schedule_reconnect s
      else emit Async_resolve (s\<lparr>pending := Some Op_resolve\<rparr>))"

definition on_resolve :: "bool \<Rightarrow> ws_client \<Rightarrow> ws_client" where
  "on_resolve ok s =
     (if \<not> ok then schedule_reconnect s
      else emit Async_connect (s\<lparr>pending := Some Op_connect\<rparr>))"

definition on_connect :: "bool \<Rightarrow> ws_client \<Rightarrow> ws_client" where
  "on_connect ok s =
     (if \<not> ok then schedule_reconnect s
      else emit Async_ssl_handshake (s\<lparr>pending := Some Op_ssl_handshake\<rparr>))"

definition on_ssl_handshake :: "bool \<Rightarrow> ws_client \<Rightarrow> ws_client" where
  "on_ssl_handshake ok s =
     (if \<not> ok then schedule_reconnect s
      else emit Async_ws_handshake (s\<lparr>pending := Some Op_ws_handshake\<rparr>))"

definition on_handshake :: "bool \<Rightarrow> ws_client \<Rightarrow> ws_client" where
  "on_handshake ok s =
     (if \<not> ok then schedule_reconnect s
      else
        let s1 = s\<lparr>connected := True, connection_state := Connected, retry_count := 0,
                   reconnect_success := reconnect_success s + 1\<rparr>;
            s2 = (if on_reconnect_set s1 then emit On_reconnect_called s1 else s1)
        in do_read s2)"

text \<open>The completion handler of \<^verbatim>\<open>async_read\<close> in \<^verbatim>\<open>do_read\<close>.\<close>

definition on_read :: "string option \<Rightarrow> ws_client \<Rightarrow> ws_client" where
  "on_read result s =
     (case result of
        None \<Rightarrow>
          if retry_enabled s then schedule_reconnect (s\<lparr>connected := False\<rparr>) else close s
      | Some msg \<Rightarrow>
          do_read
            (if length (incoming_queue s) < MAX_INCOMING_QUEUE_SIZE
             then emit (Enqueued msg) (s\<lparr>incoming_queue := incoming_queue s @ [msg]\<rparr>)
             else emit Dropped (s\<lparr>drop_count := drop_count s + 1\<rparr>)))"

text \<open>
  Delivery of one completion: the handler of the outstanding operation runs; a
  completion for an operation that is not outstanding does not occur and changes
  nothing.
\<close>

definition deliver :: "completion \<Rightarrow> ws_client \<Rightarrow> ws_client" where
  "deliver c s =
     (let s' = s\<lparr>trace := trace s @ [In c]\<rparr> in
      case (pending s, c) of
        (Some Op_retry_timer, TimerFired sni_ok) \<Rightarrow> attempt_reconnect_async sni_ok s'
      | (Some Op_resolve, ResolveDone ok) \<Rightarrow> on_resolve ok s'
      | (Some Op_connect, ConnectDone ok) \<Rightarrow> on_connect ok s'
      | (Some Op_ssl_handshake, SslHandshakeDone ok) \<Rightarrow> on_ssl_handshake ok s'
      | (Some Op_ws_handshake, HandshakeDone ok) \<Rightarrow> on_handshake ok s'
      | (Some Op_read, ReadDone result) \<Rightarrow> on_read result s'
      | _ \<Rightarrow> s)"

fun run :: "completion list \<Rightarrow> ws_client \<Rightarrow> ws_client" where
  "run [] s = s"
| "run (c # cs) s = run cs (deliver c s)"

subsection \<open>Vocabulary for the session properties\<close>

text \<open>The delays the session armed its retry timer with, in order.\<close>

fun armed_delays :: "trace_item list \<Rightarrow> int list" where
  "armed_delays [] = []"
| "armed_delays (Out (Timer_expires_after d) # tr) = d # armed_delays tr"
| "armed_delays (_ # tr) = armed_delays tr"

text \<open>The part of the state the retry logic reads and writes.\<close>

definition same_config :: "ws_client \<Rightarrow> ws_client \<Rightarrow> bool" where
  "same_config s s' \<longleftrightarrow>
     retry_enabled s' = retry_enabled s \<and> retry_max_attempts s' = retry_max_attempts s \<and>
     retry_initial_delay_ms s' = retry_initial_delay_ms s \<and>
     retry_max_delay_ms s' = retry_max_delay_ms s \<and>
     retry_backoff_multiplier s' = retry_backoff_multiplier s \<and>
     on_reconnect_set s' = on_reconnect_set s"

text \<open>
  The reference configuration: a client as its constructor leaves it, with the default
  retry parameters of \<^verbatim>\<open>config\<close> and the reconnect callback installed.
\<close>

definition reference_client :: ws_client where
  "reference_client =
     \<lparr>retry_enabled = True, retry_max_attempts = 10, retry_initial_delay_ms = 1000,
      retry_max_delay_ms = 30000, retry_backoff_multiplier = 2,
      retry_count = 0, connected = False, connection_state = Disconnected,
      reconnect_attempts = 0, reconnect_success = 0, on_reconnect_set = True,
      incoming_queue = [], drop_count = 0, pending = None, trace = []\<rparr>"

text \<open>
  One reconnect attempt that fails: the timer fires and the chain breaks at the given
  stage.
\<close>

datatype failing_stage = Fails_sni | Fails_resolve | Fails_connect | Fails_ssl | Fails_handshake

fun failed_attempt :: "failing_stage \<Rightarrow> completion list" where
  "failed_attempt Fails_sni = [TimerFired False]"
| "failed_attempt Fails_resolve = [TimerFired True, ResolveDone False]"
| "failed_attempt Fails_connect = [TimerFired True, ResolveDone True, ConnectDone False]"
| "failed_attempt Fails_ssl =
     [TimerFired True, ResolveDone True, ConnectDone True, SslHandshakeDone False]"
| "failed_attempt Fails_handshake =
     [TimerFired True, ResolveDone True, ConnectDone True, SslHandshakeDone True,
      HandshakeDone False]"

definition failed_attempts :: "failing_stage list \<Rightarrow> completion list" where
  "failed_attempts stages = concat (map failed_attempt stages)"

text \<open>The formula of the specification: \<open>min(initial \<times> multiplier^(k-1), max)\<close>.\<close>

definition spec_delay_ms :: "nat \<Rightarrow> int" where
  "spec_delay_ms k = min (1000 * 2 ^ (k - 1)) 30000"

text \<open>
  The ordering the specification asks of a trace, as a monitor.  A connection is
  \<open>Establishing\<close> from the creation of its stream, \<open>Shaken\<close> from the completion of its
  WebSocket handshake, and \<open>Ready\<close> once the reconnect callback has been invoked (the
  first connection, made by \<^verbatim>\<open>connect()\<close>, is \<open>Ready\<close> from the start).  The
  callback may be invoked only when the connection is \<open>Shaken\<close>, and a message may be
  put on the inbound queue only when it is \<open>Ready\<close>.  \<open>monitor\<close> returns the phase
  reached, or \<open>None\<close> when the trace breaks one of the two rules.
\<close>

datatype conn_phase = Ready | Establishing | Shaken

fun monitor :: "conn_phase \<Rightarrow> trace_item list \<Rightarrow> conn_phase option" where
  "monitor ph [] = Some ph"
| "monitor ph (Out Stream_created # tr) = monitor Establishing tr"
| "monitor ph (In (HandshakeDone True) # tr) = monitor Shaken tr"
| "monitor ph (Out On_reconnect_called # tr) =
     (if ph = Shaken then monitor Ready tr else None)"
| "monitor ph (Out (Enqueued msg) # tr) =
     (if ph = Ready then monitor Ready tr else None)"
| "monitor ph (_ # tr) = monitor ph tr"

definition callback_ordered :: "trace_item list \<Rightarrow> bool" where
  "callback_ordered tr \<longleftrightarrow> monitor Ready tr \<noteq> None"

text \<open>A session that is connected and reading, with an empty trace.\<close>

definition connected_client :: ws_client where
  "connected_client =
     reference_client\<lparr>connected := True, connection_state := Connected,
                       pending := Some Op_read\<rparr>"

text \<open>
  A run that loses the connection, reconnects at the first attempt and receives a
  message on the new connection.
\<close>

definition reconnect_run :: "completion list" where
  "reconnect_run =
     [ReadDone (Some ''a''), ReadDone None, TimerFired True, ResolveDone True,
      ConnectDone True, SslHandshakeDone True, HandshakeDone True, ReadDone (Some ''b'')]"



section \<open>UDP publisher (src/modules/network/udp_publisher.h, udp_publisher.cpp)\<close>

text \<open>
  \<^verbatim>\<open>exchange_adapter.h\<close>: the parsed order book.  The fields of \<^verbatim>\<open>PriceLevel\<close> are
  \<^verbatim>\<open>price_int\<close> and \<^verbatim>\<open>size\<close>; the size is carried as the bit pattern of the
  \<^verbatim>\<open>double\<close>.
\<close>

record PriceLevel =
  level_price_int :: "64 word"
  level_size :: double

record ParsedOrderBook =
  instrument :: string
  bids :: "PriceLevel list"
  asks :: "PriceLevel list"
  is_snapshot :: bool
  timestamp_ms :: "64 word"

definition UDP_FEED_MAGIC :: "32 word" where "UDP_FEED_MAGIC = 0x48465444"
definition UDP_FEED_VERSION :: "16 word" where "UDP_FEED_VERSION = 1"

text \<open>
  The bytes of an integer field after \<^verbatim>\<open>htons\<close>, \<^verbatim>\<open>htonl\<close> or
  \<^verbatim>\<open>rte_cpu_to_be_64\<close>, in memory order: most significant byte first.
\<close>

definition be16_bytes :: "16 word \<Rightarrow> 8 word list" where
  "be16_bytes w = [ucast (drop_bit 8 w), ucast w]"

definition be32_bytes :: "32 word \<Rightarrow> 8 word list" where
  "be32_bytes w = [ucast (drop_bit 24 w), ucast (drop_bit 16 w), ucast (drop_bit 8 w), ucast w]"

definition be64_bytes :: "64 word \<Rightarrow> 8 word list" where
  "be64_bytes w =
     [ucast (drop_bit 56 w), ucast (drop_bit 48 w), ucast (drop_bit 40 w),
      ucast (drop_bit 32 w), ucast (drop_bit 24 w), ucast (drop_bit 16 w),
      ucast (drop_bit 8 w), ucast w]"

text \<open>\<^verbatim>\<open>static_cast<uint8_t>(exchange_id)\<close> with the values of \<^verbatim>\<open>enum class ExchangeId\<close>.\<close>

fun exchange_id_u8 :: "ExchangeId \<Rightarrow> 8 word" where
  "exchange_id_u8 OKX = 0"
| "exchange_id_u8 BYBIT = 1"
| "exchange_id_u8 BINANCE = 2"
| "exchange_id_u8 GATE = 3"
| "exchange_id_u8 BITGET = 4"
| "exchange_id_u8 MEXC = 5"
| "exchange_id_u8 UNKNOWN = 255"

text \<open>
  The packed \<^verbatim>\<open>UdpMarketHeader\<close> (24 bytes) and \<^verbatim>\<open>UdpPriceLevel\<close> (16 bytes) as the
  bytes \<^verbatim>\<open>buffer.insert\<close> copies from them.
\<close>

record UdpMarketHeader =
  magic :: "32 word"
  version :: "16 word"
  msg_type :: "8 word"
  exchange_id :: "8 word"
  timestamp_ns :: "64 word"
  symbol_len :: "32 word"
  bid_count :: "16 word"
  ask_count :: "16 word"

definition header_bytes :: "UdpMarketHeader \<Rightarrow> 8 word list" where
  "header_bytes h =
     be32_bytes (magic h) @ be16_bytes (version h) @ [msg_type h] @ [exchange_id h] @
     be64_bytes (timestamp_ns h) @ be32_bytes (symbol_len h) @
     be16_bytes (bid_count h) @ be16_bytes (ask_count h)"

definition level_bytes :: "PriceLevel \<Rightarrow> 8 word list" where
  "level_bytes level = be64_bytes (level_price_int level) @ be64_bytes (level_size level)"

definition symbol_bytes :: "string \<Rightarrow> 8 word list" where
  "symbol_bytes symbol = map (\<lambda>c. of_char c) symbol"

text \<open>
  The buffer \<^verbatim>\<open>serialize_and_send\<close> builds; \<open>now_ns\<close> is the reading of the monotonic
  clock.  The length and the two counts are cast to the width of their header fields.
\<close>

definition serialize :: "ParsedOrderBook \<Rightarrow> ExchangeId \<Rightarrow> 64 word \<Rightarrow> 8 word list" where
  "serialize book exchange now_ns =
     (let header =
            \<lparr>magic = UDP_FEED_MAGIC, version = UDP_FEED_VERSION,
             msg_type = (if is_snapshot book then 1 else 2),
             exchange_id = exchange_id_u8 exchange,
             timestamp_ns = now_ns,
             symbol_len = word_of_nat (length (instrument book)),
             bid_count = word_of_nat (length (bids book)),
             ask_count = word_of_nat (length (asks book))\<rparr>
      in header_bytes header @ symbol_bytes (instrument book) @
         concat (map level_bytes (bids book)) @ concat (map level_bytes (asks book)))"

text \<open>
  \<^verbatim>\<open>UdpPublisher::publish\<close> and \<^verbatim>\<open>serialize_and_send\<close>: the result is the list of
  buffers handed to \<^verbatim>\<open>sendto\<close>.  \<open>addr_ok\<close> says whether \<^verbatim>\<open>inet_pton\<close> accepts the
  target address.  The return value of \<^verbatim>\<open>sendto\<close> is not acted upon.
\<close>

record UdpPublisher =
  socket_fd :: int
  target_address :: string
  target_port :: int

definition serialize_and_send ::
  "UdpPublisher \<Rightarrow> bool \<Rightarrow> 64 word \<Rightarrow> ParsedOrderBook \<Rightarrow> ExchangeId \<Rightarrow> 8 word list list" where
  "serialize_and_send pub addr_ok now_ns book exchange =
     (let buffer = serialize book exchange now_ns in
      if \<not> addr_ok then [] else [buffer])"

definition publish ::
  "UdpPublisher \<Rightarrow> bool \<Rightarrow> 64 word \<Rightarrow> ParsedOrderBook \<Rightarrow> ExchangeId \<Rightarrow> 8 word list list" where
  "publish pub addr_ok now_ns book exchange =
     (if socket_fd pub < 0 then [] else serialize_and_send pub addr_ok now_ns book exchange)"

subsection \<open>Vocabulary for the frame layout\<close>

text \<open>
  Reading the frame as a consumer does: the big-endian fields at their offsets, and the
  length the header announces, 24 bytes of header, \<open>symbol_len\<close> bytes of symbol and 16
  bytes for each of \<open>bid_count + ask_count\<close> levels.
\<close>

definition be16_at :: "8 word list \<Rightarrow> nat \<Rightarrow> 16 word" where
  "be16_at d off = push_bit 8 (ucast (d ! off)) OR ucast (d ! (off + 1))"

definition be32_at :: "8 word list \<Rightarrow> nat \<Rightarrow> 32 word" where
  "be32_at d off =
     push_bit 24 (ucast (d ! off)) OR push_bit 16 (ucast (d ! (off + 1))) OR
     push_bit 8 (ucast (d ! (off + 2))) OR ucast (d ! (off + 3))"

definition announced_length :: "8 word list \<Rightarrow> nat" where
  "announced_length d =
     24 + unat (be32_at d 16) + 16 * (unat (be16_at d 20) + unat (be16_at d 22))"

text \<open>The layout of the specification, from the values of its fields.\<close>

definition frame_layout ::
  "bool \<Rightarrow> 8 word \<Rightarrow> 64 word \<Rightarrow> string \<Rightarrow> PriceLevel list \<Rightarrow> PriceLevel list \<Rightarrow> 8 word list" where
  "frame_layout snapshot venue ts symbol bid_levels ask_levels =
     be32_bytes 0x48465444 @ be16_bytes 1 @ [if snapshot then 1 else 2] @ [venue] @
     be64_bytes ts @ be32_bytes (word_of_nat (length symbol)) @
     be16_bytes (word_of_nat (length bid_levels)) @
     be16_bytes (word_of_nat (length ask_levels)) @
     symbol_bytes symbol @
     concat (map (\<lambda>l. be64_bytes (level_price_int l) @ be64_bytes (level_size l)) bid_levels) @
     concat (map (\<lambda>l. be64_bytes (level_price_int l) @ be64_bytes (level_size l)) ask_levels)"

text \<open>Sample books: two bids and one ask; and 65536 bids.\<close>

definition sample_parsed_book :: ParsedOrderBook where
  "sample_parsed_book =
     \<lparr>instrument = ''BTCUSDT'',
      bids = [\<lparr>level_price_int = 6000050000000, level_size = d_1_5\<rparr>,
              \<lparr>level_price_int = 6000000000000, level_size = d_2_0\<rparr>],
      asks = [\<lparr>level_price_int = 6000100000000, level_size = d_0_5\<rparr>],
      is_snapshot = True, timestamp_ms = 1702500000000\<rparr>"

definition wide_parsed_book :: ParsedOrderBook where
  "wide_parsed_book =
     \<lparr>instrument = ''BTCUSDT'',
      bids = replicate 65536 \<lparr>level_price_int = 6000050000000, level_size = d_1_5\<rparr>,
      asks = [], is_snapshot = True, timestamp_ms = 1702500000000\<rparr>"

definition ready_publisher :: UdpPublisher where
  "ready_publisher = \<lparr>socket_fd = 5, target_address = ''127.0.0.1'', target_port = 13988\<rparr>"

section \<open>Properties of the classifier\<close>

lemma tcp_hdr_off_le: "tcp_hdr_off v \<le> 74"
proof -
  have "v AND 0xf \<le> 0xf" by (rule word_and_le1)
  then have "unat (v AND 0xf) \<le> 15" by (simp add: word_le_nat_alt)
  then show ?thesis by (simp add: tcp_hdr_off_def ETHER_HDR_LEN_def)
qed

lemma read_u8_in_room:
  "off < length (pkt m) \<Longrightarrow> read_u8 m off = Some (field_u8 m off)"
  by (simp add: read_u8_def field_u8_def)

lemma read_be16_in_room:
  "off + 1 < length (pkt m) \<Longrightarrow> read_be16 m off = Some (field_be16 m off)"
  by (simp add: read_be16_def read_u8_def field_be16_def)

text \<open>
  C2.  For every packet (in a buffer whose data room covers the 78 bytes the classifier
  can read, as every buffer of the pool does), \<open>classify\<close> returns the verdict of the
  ordered rules: Ethernet type other than IPv4 gives SLOW; IPv4 protocol UDP gives SLOW;
  IPv4 protocol TCP with source or destination port in {8443, 443}, the ports read at
  the offset computed from IHL, gives FAST; everything else gives SLOW.
\<close>

theorem classify_follows_rules:
  assumes "CLASSIFY_MAX_READ \<le> length (pkt m)"
  shows "classify m = Some (spec_verdict m)"
proof -
  have room: "78 \<le> length (pkt m)"
    using assms by (simp add: CLASSIFY_MAX_READ_def)
  have et: "read_be16 m ETHER_TYPE_OFF = Some (eth_type_of m)"
    using room by (simp add: read_be16_in_room ETHER_TYPE_OFF_def eth_type_of_def)
  have pr: "read_u8 m (ETHER_HDR_LEN + IPV4_NEXT_PROTO_OFF) = Some (ip_proto_of m)"
    using room
    by (simp add: read_u8_in_room ETHER_HDR_LEN_def IPV4_NEXT_PROTO_OFF_def ip_proto_of_def)
  have vi: "read_u8 m (ETHER_HDR_LEN + IPV4_VERSION_IHL_OFF) = Some (field_u8 m 14)"
    using room by (simp add: read_u8_in_room ETHER_HDR_LEN_def IPV4_VERSION_IHL_OFF_def)
  have off: "tcp_hdr_off (field_u8 m 14) = 14 + 4 * ip_ihl_of m"
    by (simp add: tcp_hdr_off_def ip_ihl_of_def ETHER_HDR_LEN_def)
  have bound: "14 + 4 * ip_ihl_of m \<le> 74"
    using tcp_hdr_off_le [of "field_u8 m 14"] off by simp
  have sp: "read_be16 m (tcp_hdr_off (field_u8 m 14) + TCP_SRC_PORT_OFF)
              = Some (tcp_src_port_of m)"
    using room bound
    by (simp add: off TCP_SRC_PORT_OFF_def read_be16_in_room tcp_src_port_of_def)
  have dp: "read_be16 m (tcp_hdr_off (field_u8 m 14) + TCP_DST_PORT_OFF)
              = Some (tcp_dst_port_of m)"
    using room bound
    by (simp add: off TCP_DST_PORT_OFF_def read_be16_in_room tcp_dst_port_of_def)
  show ?thesis
    by (simp add: classify_def et pr vi sp dp spec_verdict_def HFT_PORTS_def
        RTE_ETHER_TYPE_IPV4_def IPPROTO_UDP_def IPPROTO_TCP_def)
qed

theorem classify_follows_rules_witness:
  "CLASSIFY_MAX_READ \<le> length (pkt tcp_443_frame) \<and>
   classify tcp_443_frame = Some TRAFFIC_TYPE_HFT"
  using classify_follows_rules [of tcp_443_frame]
  by (simp add: CLASSIFY_MAX_READ_def tcp_443_frame_def frame_prefix_def frame_rest_def
      spec_verdict_def eth_type_of_def ip_proto_of_def tcp_src_port_of_def tcp_dst_port_of_def
      ip_ihl_of_def field_u8_def field_be16_def be16_def HFT_PORTS_def)

lemma classify_pkt_cong: "pkt m' = pkt m \<Longrightarrow> classify m' = classify m"
  by (simp add: classify_def read_be16_def read_u8_def)

lemma classify_timestamp [simp]: "classify (m\<lparr>dynfield1_0 := t\<rparr>) = classify m"
  by (rule classify_pkt_cong) simp

lemma classify_tcp_443_frame: "classify tcp_443_frame = Some TRAFFIC_TYPE_HFT"
  by (simp add: tcp_443_frame_def frame_prefix_def frame_rest_def
      classify_def read_be16_def read_u8_def tcp_hdr_off_def be16_def
      ETHER_HDR_LEN_def ETHER_TYPE_OFF_def IPV4_VERSION_IHL_OFF_def IPV4_NEXT_PROTO_OFF_def
      TCP_SRC_PORT_OFF_def TCP_DST_PORT_OFF_def RTE_ETHER_TYPE_IPV4_def IPPROTO_UDP_def
      IPPROTO_TCP_def)

lemma classify_zero_frame: "classify zero_frame = Some TRAFFIC_TYPE_STANDARD"
  by (simp add: zero_frame_def classify_def read_be16_def read_u8_def be16_def
      ETHER_TYPE_OFF_def RTE_ETHER_TYPE_IPV4_def)

text \<open>
  C9, as stated, fails.  \<open>truncated_frame\<close> is a 34-byte frame: Ethernet and IPv4
  headers, protocol TCP, and no TCP header at all, so a bounds check on the TCP header
  fails.  The classifier reads the port fields from the buffer bytes behind the end of
  the frame and returns FAST, not SLOW.
\<close>

theorem truncated_frame_classified_fast:
  "data_len truncated_frame = 34 \<and> \<not> header_bounds_ok truncated_frame \<and>
   classify truncated_frame = Some TRAFFIC_TYPE_HFT"
  by (simp add: header_bounds_ok_def truncated_frame_def frame_prefix_def frame_rest_def
      classify_def read_be16_def read_u8_def tcp_hdr_off_def
      ETHER_HDR_LEN_def ETHER_TYPE_OFF_def IPV4_VERSION_IHL_OFF_def IPV4_NEXT_PROTO_OFF_def
      TCP_SRC_PORT_OFF_def TCP_DST_PORT_OFF_def RTE_ETHER_TYPE_IPV4_def IPPROTO_UDP_def
      IPPROTO_TCP_def eth_type_of_def ip_proto_of_def ip_ihl_of_def field_u8_def
      field_be16_def be16_def)

lemma classify_never_ignore: "classify m \<noteq> Some TRAFFIC_TYPE_IGNORE"
  by (auto simp: classify_def split: bind_splits if_splits)

lemma classify_truncated_frame: "classify truncated_frame = Some TRAFFIC_TYPE_HFT"
  by (simp add: truncated_frame_def frame_prefix_def frame_rest_def
      classify_def read_be16_def read_u8_def tcp_hdr_off_def be16_def
      ETHER_HDR_LEN_def ETHER_TYPE_OFF_def IPV4_VERSION_IHL_OFF_def IPV4_NEXT_PROTO_OFF_def
      TCP_SRC_PORT_OFF_def TCP_DST_PORT_OFF_def RTE_ETHER_TYPE_IPV4_def IPPROTO_UDP_def
      IPPROTO_TCP_def)

section \<open>Properties of the forwarding dataplane\<close>

lemma forward_packet_slow:
  assumes "classify (mem s p) = Some t" "t \<noteq> TRAFFIC_TYPE_HFT"
  shows "forward_packet ts p s =
     Inr (s\<lparr>mem := (mem s)(p := (mem s p)\<lparr>dynfield1_0 := ts\<rparr>),
            kernel_tx_burst := kernel_tx_burst s @ [p]\<rparr>)"
  using assms by (simp add: forward_packet_def)

lemma forward_packet_fast_room:
  assumes "classify (mem s p) = Some TRAFFIC_TYPE_HFT" "length (hft_ring s) < ring_capacity s"
  shows "forward_packet ts p s =
     Inr (s\<lparr>mem := (mem s)(p := (mem s p)\<lparr>dynfield1_0 := ts, refcnt := refcnt (mem s p) + 1\<rparr>),
            hft_ring := hft_ring s @ [p],
            calls := calls s @ [Call_refcnt_update p 1, Call_ring_sp_enqueue p True],
            kernel_tx_burst := kernel_tx_burst s @ [p]\<rparr>)"
  using assms
  by (simp add: forward_packet_def rte_pktmbuf_refcnt_update_def rte_ring_sp_enqueue_def nat_add_distrib)

lemma forward_packet_fast_full:
  assumes "classify (mem s p) = Some TRAFFIC_TYPE_HFT" "\<not> length (hft_ring s) < ring_capacity s"
  shows "forward_packet ts p s =
     Inr (s\<lparr>mem := (mem s)(p := (mem s p)\<lparr>dynfield1_0 := ts\<rparr>),
            calls := calls s @ [Call_refcnt_update p 1, Call_ring_sp_enqueue p False, Call_pktmbuf_free p],
            fail_count := fail_count s + 1,
            kernel_tx_burst := kernel_tx_burst s @ [p]\<rparr>)"
  using assms
  by (simp add: forward_packet_def rte_pktmbuf_refcnt_update_def rte_ring_sp_enqueue_def
      rte_pktmbuf_free_def nat_add_distrib)

lemma forward_packet_Inr:
  assumes "forward_packet ts p s = Inr s'"
  obtains t where "classify (mem s p) = Some t"
  using assms by (cases "classify (mem s p)") (auto simp: forward_packet_def)

lemma forward_packet_frame:
  assumes "forward_packet ts p s = Inr s'"
  shows "kernel_tx_burst s' = kernel_tx_burst s @ [p]"
    and "ring_capacity s' = ring_capacity s"
    and "virt_tx_queue s' = virt_tx_queue s"
    and "pkt (mem s' q) = pkt (mem s q)"
proof -
  from assms obtain t where t: "classify (mem s p) = Some t"
    by (rule forward_packet_Inr)
  consider "t \<noteq> TRAFFIC_TYPE_HFT"
    | "t = TRAFFIC_TYPE_HFT" "length (hft_ring s) < ring_capacity s"
    | "t = TRAFFIC_TYPE_HFT" "\<not> length (hft_ring s) < ring_capacity s"
    by blast
  then have "kernel_tx_burst s' = kernel_tx_burst s @ [p] \<and>
      ring_capacity s' = ring_capacity s \<and> virt_tx_queue s' = virt_tx_queue s \<and>
      pkt (mem s' q) = pkt (mem s q)"
  proof cases
    case 1
    with t assms show ?thesis by (auto simp: forward_packet_slow)
  next
    case 2
    with t assms show ?thesis by (auto simp: forward_packet_fast_room)
  next
    case 3
    with t assms show ?thesis by (auto simp: forward_packet_fast_full)
  qed
  then show "kernel_tx_burst s' = kernel_tx_burst s @ [p]"
    and "ring_capacity s' = ring_capacity s"
    and "virt_tx_queue s' = virt_tx_queue s"
    and "pkt (mem s' q) = pkt (mem s q)"
    by simp_all
qed

lemma forward_packet_ring:
  assumes "forward_packet ts p s = Inr s'"
  shows "hft_ring s' = hft_ring s @ (if is_fast s p \<and> 0 < ring_room s then [p] else [])"
    and "refcnt (mem s' q) = refcnt (mem s q) +
            (if q = p \<and> is_fast s p \<and> 0 < ring_room s then 1 else 0)"
    and "calls s' = calls s @
       (if is_fast s p
        then if 0 < ring_room s
             then [Call_refcnt_update p 1, Call_ring_sp_enqueue p True]
             else [Call_refcnt_update p 1, Call_ring_sp_enqueue p False, Call_pktmbuf_free p]
        else [])"
proof -
  from assms obtain t where t: "classify (mem s p) = Some t"
    by (rule forward_packet_Inr)
  consider "t \<noteq> TRAFFIC_TYPE_HFT"
    | "t = TRAFFIC_TYPE_HFT" "length (hft_ring s) < ring_capacity s"
    | "t = TRAFFIC_TYPE_HFT" "\<not> length (hft_ring s) < ring_capacity s"
    by blast
  then have "hft_ring s' = hft_ring s @ (if is_fast s p \<and> 0 < ring_room s then [p] else []) \<and>
     refcnt (mem s' q) = refcnt (mem s q) +
            (if q = p \<and> is_fast s p \<and> 0 < ring_room s then 1 else 0) \<and>
     calls s' = calls s @
       (if is_fast s p
        then if 0 < ring_room s
             then [Call_refcnt_update p 1, Call_ring_sp_enqueue p True]
             else [Call_refcnt_update p 1, Call_ring_sp_enqueue p False, Call_pktmbuf_free p]
        else [])"
  proof cases
    case 1
    with t assms show ?thesis by (auto simp: forward_packet_slow is_fast_def)
  next
    case 2
    with t assms show ?thesis
      by (auto simp: forward_packet_fast_room is_fast_def ring_room_def)
  next
    case 3
    with t assms show ?thesis
      by (auto simp: forward_packet_fast_full is_fast_def ring_room_def)
  qed
  then show "hft_ring s' = hft_ring s @ (if is_fast s p \<and> 0 < ring_room s then [p] else [])"
    and "refcnt (mem s' q) = refcnt (mem s q) +
            (if q = p \<and> is_fast s p \<and> 0 < ring_room s then 1 else 0)"
    and "calls s' = calls s @
       (if is_fast s p
        then if 0 < ring_room s
             then [Call_refcnt_update p 1, Call_ring_sp_enqueue p True]
             else [Call_refcnt_update p 1, Call_ring_sp_enqueue p False, Call_pktmbuf_free p]
        else [])"
    by simp_all
qed

lemma forward_packets_Cons_Inr:
  assumes "forward_packets ts (p # ps) s = Inr s'"
  obtains s1 where "forward_packet ts p s = Inr s1" "forward_packets ts ps s1 = Inr s'"
  using assms by (cases "forward_packet ts p s") auto

lemma forward_packets_frame:
  assumes "forward_packets ts burst s = Inr s'"
  shows "kernel_tx_burst s' = kernel_tx_burst s @ burst \<and>
         ring_capacity s' = ring_capacity s \<and>
         virt_tx_queue s' = virt_tx_queue s \<and>
         (\<forall>q. pkt (mem s' q) = pkt (mem s q))"
  using assms
proof (induction burst arbitrary: s)
  case Nil
  then show ?case by simp
next
  case (Cons p ps)
  from Cons.prems obtain s1 where
    s1: "forward_packet ts p s = Inr s1" and rest: "forward_packets ts ps s1 = Inr s'"
    by (rule forward_packets_Cons_Inr)
  show ?case
    using Cons.IH [OF rest] forward_packet_frame [OF s1] by simp
qed

lemma is_fast_cong:
  assumes "\<forall>q. pkt (mem s' q) = pkt (mem s q)"
  shows "is_fast s' = is_fast s"
proof
  fix q
  have "classify (mem s' q) = classify (mem s q)"
    using assms by (intro classify_pkt_cong) simp
  then show "is_fast s' q = is_fast s q"
    by (simp add: is_fast_def)
qed

lemma forward_packets_ring:
  assumes "forward_packets ts burst s = Inr s'"
  shows "hft_ring s' = hft_ring s @ take (ring_room s) (filter (is_fast s) burst) \<and>
     (\<forall>q. refcnt (mem s' q) = refcnt (mem s q) +
            count_list (take (ring_room s) (filter (is_fast s) burst)) q) \<and>
     (\<forall>q. count_list (calls s') (Call_refcnt_update q 1) =
            count_list (calls s) (Call_refcnt_update q 1) +
            count_list (filter (is_fast s) burst) q) \<and>
     (\<forall>q. count_list (calls s') (Call_pktmbuf_free q) =
            count_list (calls s) (Call_pktmbuf_free q) +
            count_list (drop (ring_room s) (filter (is_fast s) burst)) q)"
  using assms
proof (induction burst arbitrary: s)
  case Nil
  then show ?case by simp
next
  case (Cons p ps)
  from Cons.prems obtain s1 where
    s1: "forward_packet ts p s = Inr s1" and rest: "forward_packets ts ps s1 = Inr s'"
    by (rule forward_packets_Cons_Inr)
  define acc where "acc \<longleftrightarrow> is_fast s p \<and> 0 < ring_room s"
  have fast: "is_fast s1 = is_fast s"
    using forward_packet_frame(4) [OF s1] by (simp add: is_fast_cong)
  have r1: "hft_ring s1 = hft_ring s @ (if acc then [p] else [])"
    using forward_packet_ring(1) [OF s1] by (simp add: acc_def)
  have n1: "refcnt (mem s1 q) = refcnt (mem s q) + (if q = p \<and> acc then 1 else 0)" for q
    using forward_packet_ring(2) [OF s1, of q] by (simp add: acc_def)
  have l1: "calls s1 = calls s @
       (if is_fast s p
        then if acc
             then [Call_refcnt_update p 1, Call_ring_sp_enqueue p True]
             else [Call_refcnt_update p 1, Call_ring_sp_enqueue p False, Call_pktmbuf_free p]
        else [])"
    using forward_packet_ring(3) [OF s1] by (simp add: acc_def)
  have room: "ring_room s1 = ring_room s - (if acc then 1 else 0)"
    using r1 forward_packet_frame(2) [OF s1] by (simp add: ring_room_def)
  have tk: "take (ring_room s) (filter (is_fast s) (p # ps)) =
              (if acc then [p] else []) @ take (ring_room s1) (filter (is_fast s) ps)"
    by (cases "ring_room s") (simp_all add: acc_def room)
  have dr: "drop (ring_room s) (filter (is_fast s) (p # ps)) =
              (if is_fast s p \<and> \<not> acc then [p] else []) @
              drop (ring_room s1) (filter (is_fast s) ps)"
    by (cases "ring_room s") (simp_all add: acc_def room)
  note ih = Cons.IH [OF rest, unfolded fast]
  have D: "hft_ring s' = hft_ring s @ take (ring_room s) (filter (is_fast s) (p # ps))"
    unfolding tk using ih r1 by simp
  have F: "refcnt (mem s' q) = refcnt (mem s q) +
            count_list (take (ring_room s) (filter (is_fast s) (p # ps))) q" for q
  proof -
    have "refcnt (mem s' q) = refcnt (mem s1 q) +
            count_list (take (ring_room s1) (filter (is_fast s) ps)) q"
      using ih by blast
    then show ?thesis
      unfolding tk using n1 [of q] by auto
  qed
  have G: "count_list (calls s') (Call_refcnt_update q 1) =
            count_list (calls s) (Call_refcnt_update q 1) +
            count_list (filter (is_fast s) (p # ps)) q" for q
  proof -
    have "count_list (calls s') (Call_refcnt_update q 1) =
            count_list (calls s1) (Call_refcnt_update q 1) +
            count_list (filter (is_fast s) ps) q"
      using ih by blast
    moreover have "count_list (calls s1) (Call_refcnt_update q 1) =
            count_list (calls s) (Call_refcnt_update q 1) +
            (if q = p \<and> is_fast s p then 1 else 0)"
      unfolding l1 by auto
    ultimately show ?thesis by auto
  qed
  have H: "count_list (calls s') (Call_pktmbuf_free q) =
            count_list (calls s) (Call_pktmbuf_free q) +
            count_list (drop (ring_room s) (filter (is_fast s) (p # ps))) q" for q
  proof -
    have "count_list (calls s') (Call_pktmbuf_free q) =
            count_list (calls s1) (Call_pktmbuf_free q) +
            count_list (drop (ring_room s1) (filter (is_fast s) ps)) q"
      using ih by blast
    moreover have "count_list (calls s1) (Call_pktmbuf_free q) =
            count_list (calls s) (Call_pktmbuf_free q) +
            (if q = p \<and> is_fast s p \<and> \<not> acc then 1 else 0)"
      unfolding l1 by auto
    ultimately show ?thesis
      unfolding dr by auto
  qed
  show ?case
    using D F G H by blast
qed

lemma forward_packets_succeeds:
  assumes "\<forall>p\<in>set burst. classify (mem s p) \<noteq> None"
  shows "\<exists>s'. forward_packets ts burst s = Inr s'"
  using assms
proof (induction burst arbitrary: s)
  case Nil
  then show ?case by simp
next
  case (Cons p ps)
  then obtain t where t: "classify (mem s p) = Some t" by auto
  have "\<exists>s1. forward_packet ts p s = Inr s1"
  proof (cases "t = TRAFFIC_TYPE_HFT")
    case False
    with t show ?thesis by (simp add: forward_packet_slow)
  next
    case True
    with t show ?thesis
      by (cases "length (hft_ring s) < ring_capacity s")
         (simp_all add: forward_packet_fast_room forward_packet_fast_full)
  qed
  then obtain s1 where s1: "forward_packet ts p s = Inr s1" ..
  have "classify (mem s1 q) = classify (mem s q)" for q
    using forward_packet_frame(4) [OF s1, of q] by (rule classify_pkt_cong)
  then have "\<forall>q\<in>set ps. classify (mem s1 q) \<noteq> None"
    using Cons.prems by simp
  from Cons.IH [OF this] show ?case
    using s1 by simp
qed

lemma free_all_effect:
  assumes "\<forall>p. count_list ps p \<le> refcnt (mem s p)"
  shows "\<exists>s'. free_all ps s = Inr s' \<and>
           (\<forall>q. refcnt (mem s' q) = refcnt (mem s q) - count_list ps q) \<and>
           hft_ring s' = hft_ring s \<and> virt_tx_queue s' = virt_tx_queue s \<and>
           kernel_tx_burst s' = kernel_tx_burst s"
  using assms
proof (induction ps arbitrary: s)
  case Nil
  then show ?case by simp
next
  case (Cons p ps)
  from Cons.prems have pos: "refcnt (mem s p) \<noteq> 0"
    by (metis count_list.simps(2) le_zero_eq nat.simps(3) Suc_eq_plus1)
  define s1 where "s1 = s\<lparr>mem := (mem s)(p := (mem s p)\<lparr>refcnt := refcnt (mem s p) - 1\<rparr>),
                  calls := calls s @ [Call_pktmbuf_free p]\<rparr>"
  have f: "rte_pktmbuf_free p s = Inr s1"
    using pos by (simp add: rte_pktmbuf_free_def s1_def)
  have n1: "refcnt (mem s1 q) = refcnt (mem s q) - (if q = p then 1 else 0)" for q
    by (simp add: s1_def)
  have "\<forall>q. count_list ps q \<le> refcnt (mem s1 q)"
  proof
    fix q
    show "count_list ps q \<le> refcnt (mem s1 q)"
      using Cons.prems [rule_format, of q] n1 [of q] by (auto split: if_splits)
  qed
  from Cons.IH [OF this] obtain s' where
    s': "free_all ps s1 = Inr s'"
    and n': "\<forall>q. refcnt (mem s' q) = refcnt (mem s1 q) - count_list ps q"
    and o': "hft_ring s' = hft_ring s1" "virt_tx_queue s' = virt_tx_queue s1"
       "kernel_tx_burst s' = kernel_tx_burst s1"
    by blast
  have "free_all (p # ps) s = Inr s'"
    using f s' by simp
  moreover have "\<forall>q. refcnt (mem s' q) = refcnt (mem s q) - count_list (p # ps) q"
    using n' n1 by auto
  moreover have "hft_ring s' = hft_ring s" "virt_tx_queue s' = virt_tx_queue s"
    "kernel_tx_burst s' = kernel_tx_burst s"
    using o' by (simp_all add: s1_def)
  ultimately show ?case by blast
qed

lemma count_list_take_drop:
  "count_list (take n xs) q + count_list (drop n xs) q = count_list xs q"
  by (metis append_take_drop_id count_list_append)

lemma count_list_distinct_le:
  "distinct xs \<Longrightarrow> count_list xs q \<le> 1"
  by (induction xs) auto

lemma count_list_distinct_mem:
  "distinct xs \<Longrightarrow> q \<in> set xs \<Longrightarrow> count_list xs q = 1"
  by (induction xs) auto

lemma tx_kernel_batch_effect:
  assumes "\<forall>p. count_list (kernel_tx_burst s) p \<le> refcnt (mem s p)"
  shows "\<exists>s'. tx_kernel_batch vp accept s = Inr s' \<and>
           hft_ring s' = hft_ring s \<and>
           virt_tx_queue s' = virt_tx_queue s @ driver_took vp accept (kernel_tx_burst s) \<and>
           (\<forall>q. refcnt (mem s' q) + count_list (kernel_tx_burst s) q =
                refcnt (mem s q) + count_list (driver_took vp accept (kernel_tx_burst s)) q)"
proof -
  define batch where "batch = kernel_tx_burst s"
  define nb_tx where "nb_tx = min accept (length batch)"
  have tk: "take nb_tx batch = take accept batch"
    by (simp add: nb_tx_def min_def)
  have dr: "drop nb_tx batch = drop accept batch"
    by (simp add: nb_tx_def min_def)
  show ?thesis
  proof (cases vp)
    case False
    from free_all_effect [OF assms] obtain s' where
      s': "free_all (kernel_tx_burst s) s = Inr s'"
      and n': "\<forall>q. refcnt (mem s' q) = refcnt (mem s q) - count_list (kernel_tx_burst s) q"
      and o': "hft_ring s' = hft_ring s" "virt_tx_queue s' = virt_tx_queue s"
      by blast
    show ?thesis
    proof (cases "kernel_tx_burst s = []")
      case True
      then show ?thesis
        using False by (simp add: tx_kernel_batch_def driver_took_def)
    next
      case ne: False
      have "tx_kernel_batch vp accept s = Inr s'"
        using False ne s' by (simp add: tx_kernel_batch_def)
      moreover have "\<forall>q. refcnt (mem s' q) + count_list (kernel_tx_burst s) q =
                refcnt (mem s q) + count_list (driver_took vp accept (kernel_tx_burst s)) q"
        using n' assms False by (simp add: driver_took_def)
      ultimately show ?thesis
        using o' False by (simp add: driver_took_def)
    qed
  next
    case True
    define s1 where "s1 = s\<lparr>virt_tx_queue := virt_tx_queue s @ take nb_tx batch,
                      tx_virt_total := tx_virt_total s + nb_tx\<rparr>"
    have le: "\<forall>p. count_list (drop nb_tx batch) p \<le> refcnt (mem s1 p)"
    proof
      fix p
      have "count_list (drop nb_tx batch) p \<le> count_list batch p"
        using count_list_take_drop [of nb_tx batch p] by simp
      then show "count_list (drop nb_tx batch) p \<le> refcnt (mem s1 p)"
        using assms [rule_format, of p] by (simp add: s1_def batch_def)
    qed
    from free_all_effect [OF le] obtain s' where
      s': "free_all (drop nb_tx batch) s1 = Inr s'"
      and n': "\<forall>q. refcnt (mem s' q) = refcnt (mem s1 q) - count_list (drop nb_tx batch) q"
      and o': "hft_ring s' = hft_ring s1" "virt_tx_queue s' = virt_tx_queue s1"
      by blast
    have acct: "refcnt (mem s q) - count_list (drop nb_tx batch) q + count_list batch q =
                refcnt (mem s q) + count_list (take nb_tx batch) q" for q
      using count_list_take_drop [of nb_tx batch q] assms [rule_format, of q]
      by (simp add: batch_def)
    show ?thesis
    proof (cases "nb_tx < length batch")
      case lt: True
      then have "kernel_tx_burst s \<noteq> []"
        by (auto simp: batch_def)
      then have "tx_kernel_batch vp accept s = Inr s'"
        using True s' lt by (simp add: tx_kernel_batch_def Let_def batch_def nb_tx_def s1_def)
      moreover have "\<forall>q. refcnt (mem s' q) + count_list (kernel_tx_burst s) q =
                refcnt (mem s q) + count_list (driver_took vp accept (kernel_tx_burst s)) q"
        using n' acct True by (simp add: driver_took_def s1_def batch_def [symmetric] tk)
      moreover have "hft_ring s' = hft_ring s"
        using o' by (simp add: s1_def)
      moreover have "virt_tx_queue s' =
           virt_tx_queue s @ driver_took vp accept (kernel_tx_burst s)"
        using o' True by (simp add: s1_def driver_took_def batch_def [symmetric] tk)
      ultimately show ?thesis by blast
    next
      case ge: False
      then have full: "take nb_tx batch = batch" by simp
      show ?thesis
      proof (cases "batch = []")
        case True
        then show ?thesis
          by (simp add: tx_kernel_batch_def driver_took_def batch_def [symmetric])
      next
        case ne: False
        have "tx_kernel_batch vp accept s = Inr s1"
          using True ge ne by (simp add: tx_kernel_batch_def Let_def batch_def nb_tx_def s1_def)
        moreover have "\<forall>q. refcnt (mem s1 q) + count_list (kernel_tx_burst s) q =
                refcnt (mem s q) + count_list (driver_took vp accept (kernel_tx_burst s)) q"
          using True full by (simp add: driver_took_def s1_def batch_def [symmetric] tk [symmetric])
        moreover have "hft_ring s1 = hft_ring s"
          by (simp add: s1_def)
        moreover have "virt_tx_queue s1 =
             virt_tx_queue s @ driver_took vp accept (kernel_tx_burst s)"
          using True by (simp add: s1_def driver_took_def batch_def [symmetric] tk)
        ultimately show ?thesis by blast
      qed
    qed
  qed
qed

lemma example_fresh: "\<forall>p\<in>set [1, 2, 3]. fresh_handle example_dataplane p"
  by (simp add: fresh_handle_def example_dataplane_def tcp_443_frame_def zero_frame_def
      CLASSIFY_MAX_READ_def frame_prefix_def frame_rest_def)

lemma example_is_fast:
  "is_fast example_dataplane 1" "is_fast example_dataplane 2" "\<not> is_fast example_dataplane 3"
  by (simp_all add: is_fast_def example_dataplane_def classify_tcp_443_frame classify_zero_frame)

text \<open>
  C1.  Let a non-empty ingress burst consist of distinct fresh handles (one reference
  each, held by the receiver).  Then the ingress step finishes without a double free,
  and for every packet of the burst: it is on the kernel-TX batch exactly once and in
  the HFT ring at most once; its reference count is incremented exactly once if the
  classifier marks it FAST and not at all otherwise; a FAST packet whose ring enqueue
  failed has its duplicate reference freed exactly once and is still on the kernel-TX
  batch; only FAST packets reach the ring, in burst order, as far as the ring has room.
  No reference leaks: after the loop the reference count of each packet equals the
  number of places that hold it (ring and kernel-TX batch), and after the batch transmit
  it equals the number of holders that remain (ring and driver), whatever number of
  handles the driver accepted and also when there is no virtual port.
\<close>

theorem fast_packet_refcount_accounting:
  assumes dist: "distinct burst" and ne: "burst \<noteq> []"
    and fresh: "\<forall>p\<in>set burst. fresh_handle s p"
  shows "\<exists>s1 s2.
     forward_packets ts burst
       (s\<lparr>rx_phy_total := rx_phy_total s + length burst, kernel_tx_burst := []\<rparr>) = Inr s1 \<and>
     tx_kernel_batch vp accept s1 = Inr s2 \<and>
     ingress_step burst ts vp accept s = Inr s2 \<and>
     kernel_tx_burst s1 = burst \<and>
     hft_ring s1 = hft_ring s @ take (ring_room s) (filter (is_fast s) burst) \<and>
     hft_ring s2 = hft_ring s1 \<and>
     virt_tx_queue s2 = virt_tx_queue s @ driver_took vp accept burst \<and>
     (\<forall>p\<in>set burst.
        count_list (kernel_tx_burst s1) p = 1 \<and>
        count_list (hft_ring s1) p \<le> 1 \<and>
        count_list (calls s1) (Call_refcnt_update p 1) =
          count_list (calls s) (Call_refcnt_update p 1) + (if is_fast s p then 1 else 0) \<and>
        count_list (calls s1) (Call_pktmbuf_free p) =
          count_list (calls s) (Call_pktmbuf_free p) +
          (if is_fast s p \<and> p \<notin> set (hft_ring s1) then 1 else 0) \<and>
        (p \<in> set (hft_ring s1) \<longrightarrow> is_fast s p) \<and>
        refcnt (mem s1 p) = count_list (hft_ring s1) p + count_list (kernel_tx_burst s1) p \<and>
        refcnt (mem s2 p) = count_list (hft_ring s2) p + count_list (virt_tx_queue s2) p)"
proof -
  define s0 where "s0 = s\<lparr>rx_phy_total := rx_phy_total s + length burst, kernel_tx_burst := []\<rparr>"
  define fast where "fast = filter (is_fast s) burst"
  define enq where "enq = take (ring_room s) fast"
  have mem0: "mem s0 = mem s" and ring0: "hft_ring s0 = hft_ring s"
    and room0: "ring_room s0 = ring_room s" and fast0: "is_fast s0 = is_fast s"
    and calls0: "calls s0 = calls s" and virt0: "virt_tx_queue s0 = virt_tx_queue s"
    by (simp_all add: s0_def ring_room_def is_fast_def fun_eq_iff)
  have "\<forall>p\<in>set burst. classify (mem s0 p) \<noteq> None"
  proof
    fix p assume "p \<in> set burst"
    then have "CLASSIFY_MAX_READ \<le> length (pkt (mem s p))"
      using fresh by (simp add: fresh_handle_def)
    then show "classify (mem s0 p) \<noteq> None"
      by (simp add: mem0 classify_follows_rules)
  qed
  then obtain s1 where s1: "forward_packets ts burst s0 = Inr s1"
    using forward_packets_succeeds by blast
  have k1: "kernel_tx_burst s1 = burst" and v1: "virt_tx_queue s1 = virt_tx_queue s"
    using forward_packets_frame [OF s1] by (simp_all add: s0_def)
  note ring = forward_packets_ring [OF s1, unfolded mem0 ring0 room0 fast0 calls0]
  have r1: "hft_ring s1 = hft_ring s @ enq"
    using ring by (simp add: enq_def fast_def)
  have n1: "refcnt (mem s1 q) = refcnt (mem s q) + count_list enq q" for q
    using ring by (simp add: enq_def fast_def)
  have u1: "count_list (calls s1) (Call_refcnt_update q 1) =
            count_list (calls s) (Call_refcnt_update q 1) + count_list fast q" for q
    using ring by (simp add: fast_def)
  have f1: "count_list (calls s1) (Call_pktmbuf_free q) =
            count_list (calls s) (Call_pktmbuf_free q) +
            count_list (drop (ring_room s) fast) q" for q
    using ring by (simp add: fast_def)
  have dfast: "distinct fast" and denq: "distinct enq"
    using dist by (simp_all add: fast_def enq_def)
  have le: "\<forall>p. count_list (kernel_tx_burst s1) p \<le> refcnt (mem s1 p)"
  proof
    fix p
    show "count_list (kernel_tx_burst s1) p \<le> refcnt (mem s1 p)"
    proof (cases "p \<in> set burst")
      case True
      then have "refcnt (mem s p) = 1" using fresh by (simp add: fresh_handle_def)
      then show ?thesis
        using count_list_distinct_le [OF dist, of p] n1 [of p] by (simp add: k1)
    next
      case False
      then show ?thesis by (simp add: k1)
    qed
  qed
  from tx_kernel_batch_effect [OF le, of vp accept] obtain s2 where
    s2: "tx_kernel_batch vp accept s1 = Inr s2"
    and r2: "hft_ring s2 = hft_ring s1"
    and v2: "virt_tx_queue s2 = virt_tx_queue s1 @ driver_took vp accept (kernel_tx_burst s1)"
    and n2: "\<forall>q. refcnt (mem s2 q) + count_list (kernel_tx_burst s1) q =
                refcnt (mem s1 q) + count_list (driver_took vp accept (kernel_tx_burst s1)) q"
    by blast
  have step: "ingress_step burst ts vp accept s = Inr s2"
    using ne s1 s2 by (simp add: ingress_step_def Let_def s0_def)
  have per: "\<forall>p\<in>set burst.
        count_list (kernel_tx_burst s1) p = 1 \<and>
        count_list (hft_ring s1) p \<le> 1 \<and>
        count_list (calls s1) (Call_refcnt_update p 1) =
          count_list (calls s) (Call_refcnt_update p 1) + (if is_fast s p then 1 else 0) \<and>
        count_list (calls s1) (Call_pktmbuf_free p) =
          count_list (calls s) (Call_pktmbuf_free p) +
          (if is_fast s p \<and> p \<notin> set (hft_ring s1) then 1 else 0) \<and>
        (p \<in> set (hft_ring s1) \<longrightarrow> is_fast s p) \<and>
        refcnt (mem s1 p) = count_list (hft_ring s1) p + count_list (kernel_tx_burst s1) p \<and>
        refcnt (mem s2 p) = count_list (hft_ring s2) p + count_list (virt_tx_queue s2) p"
  proof
    fix p assume p: "p \<in> set burst"
    from p fresh have rc: "refcnt (mem s p) = 1" and nr: "p \<notin> set (hft_ring s)"
      and nv: "p \<notin> set (virt_tx_queue s)"
      by (simp_all add: fresh_handle_def)
    have cb: "count_list burst p = 1"
      using dist p by (rule count_list_distinct_mem)
    have cr0: "count_list (hft_ring s) p = 0" and cv0: "count_list (virt_tx_queue s) p = 0"
      using nr nv by (simp_all add: count_list_0_iff)
    have cr1: "count_list (hft_ring s1) p = count_list enq p"
      using cr0 by (simp add: r1)
    have ce: "count_list enq p \<le> 1"
      using denq by (rule count_list_distinct_le)
    have cf: "count_list fast p = (if is_fast s p then 1 else 0)"
    proof (cases "is_fast s p")
      case True
      then have "p \<in> set fast" using p by (simp add: fast_def)
      then show ?thesis using True dfast by (simp add: count_list_distinct_mem)
    next
      case False
      then have "p \<notin> set fast" by (simp add: fast_def)
      then show ?thesis using False by (simp add: count_list_0_iff)
    qed
    have mem_ring: "p \<in> set (hft_ring s1) \<longleftrightarrow> p \<in> set enq"
      using nr by (simp add: r1)
    have sub: "p \<in> set enq \<Longrightarrow> is_fast s p"
      using in_set_takeD [of p "ring_room s" fast] by (simp add: enq_def fast_def)
    have cd: "count_list (drop (ring_room s) fast) p =
                (if is_fast s p \<and> p \<notin> set (hft_ring s1) then 1 else 0)"
    proof -
      have sum: "count_list enq p + count_list (drop (ring_room s) fast) p = count_list fast p"
        unfolding enq_def by (rule count_list_take_drop)
      show ?thesis
      proof (cases "p \<in> set enq")
        case True
        then have "count_list enq p = 1"
          using denq by (simp add: count_list_distinct_mem)
        then show ?thesis
          using sum cf True mem_ring sub by (auto split: if_splits)
      next
        case False
        then have "count_list enq p = 0" by (simp add: count_list_0_iff)
        then show ?thesis
          using sum cf False mem_ring by simp
      qed
    qed
    have n2p: "refcnt (mem s2 p) = count_list (hft_ring s2) p + count_list (virt_tx_queue s2) p"
      using n2 [rule_format, of p] n1 [of p] rc cb cr1 cv0
      by (simp add: k1 r2 v2 v1)
    show "count_list (kernel_tx_burst s1) p = 1 \<and>
        count_list (hft_ring s1) p \<le> 1 \<and>
        count_list (calls s1) (Call_refcnt_update p 1) =
          count_list (calls s) (Call_refcnt_update p 1) + (if is_fast s p then 1 else 0) \<and>
        count_list (calls s1) (Call_pktmbuf_free p) =
          count_list (calls s) (Call_pktmbuf_free p) +
          (if is_fast s p \<and> p \<notin> set (hft_ring s1) then 1 else 0) \<and>
        (p \<in> set (hft_ring s1) \<longrightarrow> is_fast s p) \<and>
        refcnt (mem s1 p) = count_list (hft_ring s1) p + count_list (kernel_tx_burst s1) p \<and>
        refcnt (mem s2 p) = count_list (hft_ring s2) p + count_list (virt_tx_queue s2) p"
      using cb ce cr1 cf cd mem_ring sub n1 [of p] rc n2p u1 [of p] f1 [of p]
      by (simp add: k1)
  qed
  have v2': "virt_tx_queue s2 = virt_tx_queue s @ driver_took vp accept burst"
    using v2 v1 k1 by simp
  show ?thesis
  proof (intro exI conjI)
    show "forward_packets ts burst
       (s\<lparr>rx_phy_total := rx_phy_total s + length burst, kernel_tx_burst := []\<rparr>) = Inr s1"
      using s1 by (simp add: s0_def)
    show "tx_kernel_batch vp accept s1 = Inr s2" by (rule s2)
    show "ingress_step burst ts vp accept s = Inr s2" by (rule step)
    show "kernel_tx_burst s1 = burst" by (rule k1)
    show "hft_ring s1 = hft_ring s @ take (ring_room s) (filter (is_fast s) burst)"
      using r1 by (simp add: enq_def fast_def)
    show "hft_ring s2 = hft_ring s1" by (rule r2)
    show "virt_tx_queue s2 = virt_tx_queue s @ driver_took vp accept burst" by (rule v2')
  qed (rule per)
qed

theorem fast_packet_refcount_accounting_witness:
  "distinct [1, 2, 3 :: nat] \<and> [1, 2, 3 :: nat] \<noteq> [] \<and>
   fresh_handle example_dataplane 1 \<and> fresh_handle example_dataplane 2 \<and>
   fresh_handle example_dataplane 3 \<and>
   (\<exists>s2. ingress_step [1, 2, 3] 7 True 2 example_dataplane = Inr s2 \<and>
      hft_ring s2 = [1] \<and> virt_tx_queue s2 = [1, 2] \<and>
      refcnt (mem s2 1) = 2 \<and> refcnt (mem s2 2) = 1 \<and> refcnt (mem s2 3) = 0)"
proof -
  have d: "distinct [1, 2, 3 :: nat]" and n: "[1, 2, 3 :: nat] \<noteq> []" by simp_all
  have "\<exists>s2. ingress_step [1, 2, 3] 7 True 2 example_dataplane = Inr s2 \<and>
      hft_ring s2 = [1] \<and> virt_tx_queue s2 = [1, 2] \<and>
      refcnt (mem s2 1) = 2 \<and> refcnt (mem s2 2) = 1 \<and> refcnt (mem s2 3) = 0"
    using fast_packet_refcount_accounting [OF d n example_fresh, of 7 True 2]
  proof (elim exE conjE)
    fix s1 s2
    assume step: "ingress_step [1, 2, 3] 7 True 2 example_dataplane = Inr s2"
      and r1: "hft_ring s1 = hft_ring example_dataplane @
               take (ring_room example_dataplane) (filter (is_fast example_dataplane) [1, 2, 3])"
      and r2: "hft_ring s2 = hft_ring s1"
      and v2: "virt_tx_queue s2 = virt_tx_queue example_dataplane @ driver_took True 2 [1, 2, 3]"
      and per: "\<forall>p\<in>set [1, 2, 3].
        count_list (kernel_tx_burst s1) p = 1 \<and>
        count_list (hft_ring s1) p \<le> 1 \<and>
        count_list (calls s1) (Call_refcnt_update p 1) =
          count_list (calls example_dataplane) (Call_refcnt_update p 1) +
          (if is_fast example_dataplane p then 1 else 0) \<and>
        count_list (calls s1) (Call_pktmbuf_free p) =
          count_list (calls example_dataplane) (Call_pktmbuf_free p) +
          (if is_fast example_dataplane p \<and> p \<notin> set (hft_ring s1) then 1 else 0) \<and>
        (p \<in> set (hft_ring s1) \<longrightarrow> is_fast example_dataplane p) \<and>
        refcnt (mem s1 p) = count_list (hft_ring s1) p + count_list (kernel_tx_burst s1) p \<and>
        refcnt (mem s2 p) = count_list (hft_ring s2) p + count_list (virt_tx_queue s2) p"
    have ring: "hft_ring s2 = [1]"
      using r1 r2 example_is_fast by (simp add: ring_room_def example_dataplane_def)
    have virt: "virt_tx_queue s2 = [1, 2]"
      using v2 by (simp add: driver_took_def example_dataplane_def)
    have "refcnt (mem s2 1) = 2 \<and> refcnt (mem s2 2) = 1 \<and> refcnt (mem s2 3) = 0"
      using per by (simp add: ring virt)
    then show ?thesis
      using step ring virt by blast
  qed
  then show ?thesis
    using d n example_fresh by simp
qed

section \<open>Malformed packets on the forwarding path\<close>

lemma forward_packet_total:
  assumes "classify (mem s p) \<noteq> None"
  shows "\<exists>s'. forward_packet ts p s = Inr s'"
proof -
  from assms obtain t where t: "classify (mem s p) = Some t" by auto
  show ?thesis
  proof (cases "t = TRAFFIC_TYPE_HFT")
    case False
    with t show ?thesis by (simp add: forward_packet_slow)
  next
    case True
    with t show ?thesis
      by (cases "length (hft_ring s) < ring_capacity s")
         (simp_all add: forward_packet_fast_room forward_packet_fast_full)
  qed
qed

text \<open>
  C9, amended.  The classifier makes no bounds check: its verdict does not depend on
  the length of the frame, only on the buffer bytes at the offsets it reads, and it is
  never \<open>TRAFFIC_TYPE_IGNORE\<close>.  A malformed or truncated packet is therefore classified
  SLOW or FAST like any other packet, and whichever it is, the dataplane appends the
  packet to the kernel-TX batch: classification never drops it.
\<close>

theorem malformed_packet_still_forwarded:
  "classify (m\<lparr>data_len := n\<rparr>) = classify m \<and>
   classify m \<noteq> Some TRAFFIC_TYPE_IGNORE \<and>
   (classify (mem s p) \<noteq> None \<longrightarrow>
      (\<exists>s'. forward_packet ts p s = Inr s' \<and>
            kernel_tx_burst s' = kernel_tx_burst s @ [p]))"
proof (intro conjI impI)
  show "classify (m\<lparr>data_len := n\<rparr>) = classify m"
    by (rule classify_pkt_cong) simp
  show "classify m \<noteq> Some TRAFFIC_TYPE_IGNORE"
    by (rule classify_never_ignore)
  assume "classify (mem s p) \<noteq> None"
  then obtain s' where s': "forward_packet ts p s = Inr s'"
    using forward_packet_total by blast
  then show "\<exists>s'. forward_packet ts p s = Inr s' \<and>
            kernel_tx_burst s' = kernel_tx_burst s @ [p]"
    using forward_packet_frame(1) [OF s'] by blast
qed

theorem malformed_packet_still_forwarded_witness:
  "classify (mem (example_dataplane\<lparr>mem := (\<lambda>_. truncated_frame)\<rparr>) 5) \<noteq> None \<and>
   (\<exists>s'. forward_packet 7 5 (example_dataplane\<lparr>mem := (\<lambda>_. truncated_frame)\<rparr>) = Inr s' \<and>
         kernel_tx_burst s' = [5])"
proof -
  have c: "classify truncated_frame = Some TRAFFIC_TYPE_HFT"
    by (rule classify_truncated_frame)
  then have ne: "classify (mem (example_dataplane\<lparr>mem := (\<lambda>_. truncated_frame)\<rparr>) 5) \<noteq> None"
    by simp
  from malformed_packet_still_forwarded
         [where m = truncated_frame and n = 34 and p = 5 and ts = 7
            and s = "example_dataplane\<lparr>mem := (\<lambda>_. truncated_frame)\<rparr>"]
  show ?thesis
    using ne by (simp add: example_dataplane_def)
qed

section \<open>Properties of the order book\<close>

lemma strict_linear_greater_u64: "strict_linear greater_u64"
  by (auto simp: strict_linear_def greater_u64_def)

lemma strict_linear_less_u64: "strict_linear less_u64"
  by (auto simp: strict_linear_def less_u64_def)

lemma set_map_assign: "set (map_assign lt k v m) \<subseteq> insert (k, v) (set m)"
  by (induction m) (auto split: if_splits)

lemma set_map_erase: "set (map_erase lt k m) \<subseteq> set m"
  by (induction m) (auto split: if_splits)

lemma keys_map_assign:
  assumes "strict_linear lt"
  shows "fst ` set (map_assign lt k v m) = insert k (fst ` set m)"
proof (induction m)
  case Nil
  show ?case by simp
next
  case (Cons kv m)
  obtain k' v' where kv: "kv = (k', v')" by (cases kv)
  consider "lt k k'" | "\<not> lt k k'" "lt k' k" | "\<not> lt k k'" "\<not> lt k' k" by blast
  then show ?case
  proof cases
    case 1
    then show ?thesis by (simp add: kv)
  next
    case 2
    then show ?thesis using Cons.IH by (simp add: kv insert_commute)
  next
    case 3
    then have "k = k'" using assms by (auto simp: strict_linear_def)
    then show ?thesis using 3 by (simp add: kv)
  qed
qed


lemma sorted_map_assign:
  assumes "strict_linear lt" "sorted_wrt lt (map fst m)"
  shows "sorted_wrt lt (map fst (map_assign lt k v m))"
  using assms(2)
proof (induction m)
  case Nil
  show ?case by simp
next
  case (Cons kv m)
  obtain k' v' where kv: "kv = (k', v')" by (cases kv)
  from Cons.prems have tl: "sorted_wrt lt (map fst m)" and hd: "\<forall>x\<in>fst ` set m. lt k' x"
    by (auto simp: kv)
  consider "lt k k'" | "\<not> lt k k'" "lt k' k" | "\<not> lt k k'" "\<not> lt k' k" by blast
  then show ?case
  proof cases
    case 1
    have "\<forall>x\<in>fst ` set m. lt k x"
      using hd 1 assms(1) unfolding strict_linear_def by blast
    then show ?thesis using 1 tl hd by (auto simp: kv)
  next
    case 2
    have "\<forall>x\<in>fst ` set (map_assign lt k v m). lt k' x"
      using hd 2 by (simp add: keys_map_assign [OF assms(1)])
    then show ?thesis using 2 Cons.IH [OF tl] by (auto simp: kv)
  next
    case 3
    then have "k = k'" using assms(1) by (auto simp: strict_linear_def)
    then show ?thesis using 3 tl hd by (auto simp: kv)
  qed
qed

lemma sorted_map_erase:
  assumes "sorted_wrt lt (map fst m)"
  shows "sorted_wrt lt (map fst (map_erase lt k m))"
  using assms
proof (induction m)
  case Nil
  show ?case by simp
next
  case (Cons kv m)
  obtain k' v' where kv: "kv = (k', v')" by (cases kv)
  from Cons.prems have tl: "sorted_wrt lt (map fst m)" and hd: "\<forall>x\<in>fst ` set m. lt k' x"
    by (auto simp: kv)
  have "\<forall>x\<in>fst ` set (map_erase lt k m). lt k' x"
    using hd set_map_erase [of lt k m] by blast
  then show ?case
    using Cons.IH [OF tl] tl hd by (auto simp: kv)
qed


lemma wf_apply_update_internal:
  "wf_book b \<Longrightarrow> wf_book (apply_update_internal u b)"
  by (simp add: wf_book_def apply_update_internal_def Let_def
      sorted_map_assign sorted_map_erase strict_linear_greater_u64 strict_linear_less_u64)


lemma wf_apply_each: "wf_book b \<Longrightarrow> wf_book (apply_each updates b)"
  by (induction updates arbitrary: b) (simp_all add: wf_apply_update_internal)







lemma double_gt_zero_iff: "double_gt_zero x \<longleftrightarrow> \<not> double_le_zero x \<and> \<not> double_is_nan x"
  by (auto simp: double_gt_zero_def double_le_zero_def)


lemmas double_defs = double_le_zero_def double_gt_zero_def double_is_nan_def double_is_zero_def
  double_sign_def d_1_5_def d_2_0_def d_0_5_def d_nan_def

lemmas sample_update_defs = bid_100_def ask_100_def ask_101_def bid_100_flagged_def
  bid_100_zero_def bid_99_nan_def

lemmas book_op_defs = apply_snapshot_def apply_updates_def apply_update_def
  apply_update_internal_def clear_def empty_book_def greater_u64_def less_u64_def





lemma list_all_map_assign:
  assumes "P v" "list_all (\<lambda>kv. P (snd kv)) m"
  shows "list_all (\<lambda>kv. P (snd kv)) (map_assign lt k v m)"
  using assms set_map_assign [of lt k v m] by (auto simp: list_all_iff)

lemma list_all_map_erase:
  assumes "list_all (\<lambda>kv. P (snd kv)) m"
  shows "list_all (\<lambda>kv. P (snd kv)) (map_erase lt k m)"
  using assms set_map_erase [of lt k m] by (auto simp: list_all_iff)

lemma apply_update_internal_sizes:
  assumes "\<not> removes_level u \<Longrightarrow> P (quantity u)"
    and "list_all (\<lambda>kv. P (snd kv)) (bids_map b)"
    and "list_all (\<lambda>kv. P (snd kv)) (asks_map b)"
  shows "list_all (\<lambda>kv. P (snd kv)) (bids_map (apply_update_internal u b)) \<and>
         list_all (\<lambda>kv. P (snd kv)) (asks_map (apply_update_internal u b))"
proof (cases "removes_level u")
  case True
  then show ?thesis
    using assms(2,3)
    by (simp add: apply_update_internal_def removes_level_def Let_def list_all_map_erase)
next
  case False
  then have "P (quantity u)" by (rule assms(1))
  then show ?thesis
    using False assms(2,3)
    by (simp add: apply_update_internal_def removes_level_def Let_def list_all_map_assign)
qed

lemma apply_each_sizes:
  assumes "list_all (\<lambda>u. \<not> removes_level u \<longrightarrow> P (quantity u)) updates"
    and "list_all (\<lambda>kv. P (snd kv)) (bids_map b)"
    and "list_all (\<lambda>kv. P (snd kv)) (asks_map b)"
  shows "list_all (\<lambda>kv. P (snd kv)) (bids_map (apply_each updates b)) \<and>
         list_all (\<lambda>kv. P (snd kv)) (asks_map (apply_each updates b))"
  using assms
proof (induction updates arbitrary: b)
  case Nil
  then show ?case by simp
next
  case (Cons u us)
  have step: "list_all (\<lambda>kv. P (snd kv)) (bids_map (apply_update_internal u b)) \<and>
         list_all (\<lambda>kv. P (snd kv)) (asks_map (apply_update_internal u b))"
    using Cons.prems by (intro apply_update_internal_sizes) simp_all
  show ?case
    using Cons.IH [of "apply_update_internal u b"] Cons.prems(1) step by simp
qed

lemma not_le_zero_updates:
  "list_all (\<lambda>u. \<not> removes_level u \<longrightarrow> \<not> double_le_zero (quantity u)) updates"
  by (simp add: list_all_iff removes_level_def)

lemma gt_zero_updates:
  assumes "list_all (\<lambda>u. \<not> double_is_nan (quantity u)) updates"
  shows "list_all (\<lambda>u. \<not> removes_level u \<longrightarrow> double_gt_zero (quantity u)) updates"
  using assms by (auto simp: list_all_iff removes_level_def double_gt_zero_iff)

lemma apply_update_internal_other_side:
  "(side u = BID \<longrightarrow> asks_map (apply_update_internal u b) = asks_map b) \<and>
   (side u = ASK \<longrightarrow> bids_map (apply_update_internal u b) = bids_map b)"
  by (simp add: apply_update_internal_def Let_def)

text \<open>
  C7, as stated, fails.  The empty book satisfies both invariants; after
  \<open>apply_updates\<close> with a bid and an ask at the same price 100, both of positive size,
  the key 100 is stored on both sides.
\<close>

theorem same_price_on_both_sides:
  "disjoint_sides empty_book \<and> sizes_positive empty_book \<and>
   sizes_positive (apply_updates [bid_100, ask_100] empty_book) \<and>
   \<not> disjoint_sides (apply_updates [bid_100, ask_100] empty_book)"
  by (simp add: disjoint_sides_def sizes_positive_def sample_update_defs double_defs book_op_defs)

text \<open>
  A NaN size passes the test \<^verbatim>\<open>quantity <= 0.0\<close> and is stored, so ``strictly
  greater than 0'' needs the proviso that no update carries a NaN.
\<close>

lemma nan_size_is_stored:
  "bids_map (apply_update bid_99_nan empty_book) = [(99, d_nan)] \<and>
   \<not> sizes_positive (apply_update bid_99_nan empty_book)"
  by (simp add: sizes_positive_def sample_update_defs double_defs book_op_defs)

text \<open>
  C7, amended.  Every \<open>OrderBook\<close> operation (\<open>apply_snapshot\<close>, \<open>apply_updates\<close>,
  \<open>apply_update\<close>, \<open>clear\<close>) preserves the invariant that no stored size is \<open>\<le> 0\<close>,
  and, when no update carries a NaN size, the invariant that every stored size is
  strictly greater than 0.  The two sides are independent: an update changes only the
  side it names, so the operations do not keep the key sets of bids and asks disjoint.
\<close>

theorem order_book_ops_keep_sizes:
  assumes "sizes_not_le_zero b"
  shows "sizes_not_le_zero (apply_snapshot updates b) \<and>
         sizes_not_le_zero (apply_updates updates b) \<and>
         sizes_not_le_zero (apply_update u b) \<and>
         sizes_not_le_zero (clear b) \<and>
         (list_all (\<lambda>u. \<not> double_is_nan (quantity u)) updates \<longrightarrow>
            sizes_positive (apply_snapshot updates b)) \<and>
         (sizes_positive b \<and> list_all (\<lambda>u. \<not> double_is_nan (quantity u)) updates \<longrightarrow>
            sizes_positive (apply_updates updates b)) \<and>
         (sizes_positive b \<and> \<not> double_is_nan (quantity u) \<longrightarrow>
            sizes_positive (apply_update u b)) \<and>
         sizes_positive (clear b) \<and>
         (side u = BID \<longrightarrow> asks_map (apply_update u b) = asks_map b) \<and>
         (side u = ASK \<longrightarrow> bids_map (apply_update u b) = bids_map b)"
proof -
  have b: "list_all (\<lambda>kv. \<not> double_le_zero (snd kv)) (bids_map b)"
    "list_all (\<lambda>kv. \<not> double_le_zero (snd kv)) (asks_map b)"
    using assms by (simp_all add: sizes_not_le_zero_def)
  have 1: "sizes_not_le_zero (apply_snapshot updates b)"
    unfolding sizes_not_le_zero_def apply_snapshot_def
    by (rule apply_each_sizes [OF not_le_zero_updates]) simp_all
  have 2: "sizes_not_le_zero (apply_updates updates b)"
    unfolding sizes_not_le_zero_def apply_updates_def
    by (rule apply_each_sizes [OF not_le_zero_updates b])
  have 3: "sizes_not_le_zero (apply_update u b)"
    unfolding sizes_not_le_zero_def apply_update_def
    by (rule apply_update_internal_sizes [OF _ b]) (simp add: removes_level_def)
  have 4: "sizes_not_le_zero (clear b)" "sizes_positive (clear b)"
    by (simp_all add: sizes_not_le_zero_def sizes_positive_def clear_def)
  have 5: "sizes_positive (apply_snapshot updates b)"
    if "list_all (\<lambda>u. \<not> double_is_nan (quantity u)) updates"
    unfolding sizes_positive_def apply_snapshot_def
    by (rule apply_each_sizes [OF gt_zero_updates [OF that]]) simp_all
  have 6: "sizes_positive (apply_updates updates b)"
    if "sizes_positive b" "list_all (\<lambda>u. \<not> double_is_nan (quantity u)) updates"
    unfolding sizes_positive_def apply_updates_def
    using that(1)
    by (intro apply_each_sizes [OF gt_zero_updates [OF that(2)]])
       (simp_all add: sizes_positive_def)
  have 7: "sizes_positive (apply_update u b)"
    if "sizes_positive b" "\<not> double_is_nan (quantity u)"
    unfolding sizes_positive_def apply_update_def
    using that
    by (intro apply_update_internal_sizes)
       (simp_all add: sizes_positive_def removes_level_def double_gt_zero_iff)
  show ?thesis
    using 1 2 3 4 5 6 7 apply_update_internal_other_side [of u b]
    by (simp add: apply_update_def)
qed

theorem order_book_ops_keep_sizes_witness:
  "sizes_not_le_zero (apply_updates [bid_100] empty_book) \<and>
   sizes_not_le_zero (apply_updates [ask_100, bid_99_nan] (apply_updates [bid_100] empty_book)) \<and>
   sizes_positive (apply_updates [ask_100, ask_101] (apply_updates [bid_100] empty_book)) \<and>
   asks_map (apply_update bid_100_zero (apply_updates [bid_100] empty_book)) =
     asks_map (apply_updates [bid_100] empty_book)"
proof -
  have h: "sizes_not_le_zero (apply_updates [bid_100] empty_book)"
    by (simp add: sizes_not_le_zero_def sample_update_defs double_defs book_op_defs)
  have p: "sizes_positive (apply_updates [bid_100] empty_book)"
    by (simp add: sizes_positive_def sample_update_defs double_defs book_op_defs)
  have n: "list_all (\<lambda>u. \<not> double_is_nan (quantity u)) [ask_100, ask_101]"
    by (simp add: sample_update_defs double_defs)
  have s: "side bid_100_zero = BID"
    by (simp add: sample_update_defs)
  show ?thesis
    using order_book_ops_keep_sizes [OF h, of "[ask_100, bid_99_nan]" bid_100_zero]
      order_book_ops_keep_sizes [OF h, of "[ask_100, ask_101]" bid_100_zero] h p n s
    by blast
qed

section \<open>Best prices\<close>

lemma get_book_fst:
  "fst (get_book e i books) = addressed_book e i books"
  by (simp add: addressed_book_def)

lemma sorted_hd_best:
  assumes "sorted_wrt lt (map fst m)" "kv \<in> set m"
  shows "fst kv = fst (hd m) \<or> lt (fst (hd m)) (fst kv)"
  using assms by (cases m) auto

lemma addressed_sample:
  "addressed_book BYBIT ''BTCUSDT'' sample_manager = sample_book"
  "addressed_book OKX ''BTC-USDT'' sample_manager = empty_book"
  by (simp_all add: addressed_book_def get_book_def sample_manager_def Let_def)

lemma u64_to_double_samples:
  "u64_to_double 6000050000000 = 0x4295D3FB65420000"
  "u64_to_double 6000100000000 = 0x4295D40751040000"
  by (simp_all add: u64_to_double_def msb_index.simps)

text \<open>
  C10.  When both sides of the addressed book are non-empty, \<open>get_best_prices\<close> returns
  true and writes into \<open>bid_price\<close> and \<open>ask_price\<close> the stored integer keys at the
  head of each side, cast to double as they are (the scale \<open>10^8\<close> is not divided out),
  together with the sizes stored with them; in a well-formed book these heads are the
  highest bid key and the lowest ask key.  When either side is empty it returns false
  and the four output parameters keep the values they had.
\<close>

theorem get_best_prices_result:
  "(bids_map (addressed_book e i books) \<noteq> [] \<and> asks_map (addressed_book e i books) \<noteq> [] \<longrightarrow>
      fst (get_best_prices e i out uninit books) = True \<and>
      fst (snd (get_best_prices e i out uninit books)) =
        \<lparr>out_bid_price = u64_to_double (fst (hd (bids_map (addressed_book e i books)))),
         out_bid_qty = snd (hd (bids_map (addressed_book e i books))),
         out_ask_price = u64_to_double (fst (hd (asks_map (addressed_book e i books)))),
         out_ask_qty = snd (hd (asks_map (addressed_book e i books)))\<rparr>) \<and>
   (bids_map (addressed_book e i books) = [] \<or> asks_map (addressed_book e i books) = [] \<longrightarrow>
      fst (get_best_prices e i out uninit books) = False \<and>
      fst (snd (get_best_prices e i out uninit books)) = out) \<and>
   (wf_book (addressed_book e i books) \<longrightarrow>
      list_all (\<lambda>kv. fst kv \<le> fst (hd (bids_map (addressed_book e i books))))
        (bids_map (addressed_book e i books)) \<and>
      list_all (\<lambda>kv. fst (hd (asks_map (addressed_book e i books))) \<le> fst kv)
        (asks_map (addressed_book e i books)))"
proof (intro conjI impI)
  define bk where "bk = addressed_book e i books"
  obtain books' where gb: "get_book e i books = (bk, books')"
    by (cases "get_book e i books") (simp add: bk_def addressed_book_def)
  {
    assume ne: "bids_map (addressed_book e i books) \<noteq> [] \<and> asks_map (addressed_book e i books) \<noteq> []"
    then have ne': "bids_map bk \<noteq> []" "asks_map bk \<noteq> []" by (simp_all add: bk_def)
    show "fst (get_best_prices e i out uninit books) = True"
      using ne' by (simp add: get_best_prices_def gb get_bbo_def Let_def)
    show "fst (snd (get_best_prices e i out uninit books)) =
        \<lparr>out_bid_price = u64_to_double (fst (hd (bids_map (addressed_book e i books)))),
         out_bid_qty = snd (hd (bids_map (addressed_book e i books))),
         out_ask_price = u64_to_double (fst (hd (asks_map (addressed_book e i books)))),
         out_ask_qty = snd (hd (asks_map (addressed_book e i books)))\<rparr>"
      using ne' by (simp add: get_best_prices_def gb get_bbo_def Let_def bk_def [symmetric])
  }
  {
    assume em: "bids_map (addressed_book e i books) = [] \<or> asks_map (addressed_book e i books) = []"
    then have em': "bids_map bk = [] \<or> asks_map bk = []" by (simp add: bk_def)
    show "fst (get_best_prices e i out uninit books) = False"
      using em' by (auto simp: get_best_prices_def gb get_bbo_def Let_def)
    show "fst (snd (get_best_prices e i out uninit books)) = out"
      using em' by (auto simp: get_best_prices_def gb get_bbo_def Let_def)
  }
  {
    assume wf: "wf_book (addressed_book e i books)"
    then have sb: "sorted_wrt greater_u64 (map fst (bids_map bk))"
      and sa: "sorted_wrt less_u64 (map fst (asks_map bk))"
      by (simp_all add: wf_book_def bk_def)
    show "list_all (\<lambda>kv. fst kv \<le> fst (hd (bids_map (addressed_book e i books))))
        (bids_map (addressed_book e i books))"
      unfolding bk_def [symmetric] list_all_iff
    proof
      fix kv assume "kv \<in> set (bids_map bk)"
      from sorted_hd_best [OF sb this]
      show "fst kv \<le> fst (hd (bids_map bk))"
        by (auto simp: greater_u64_def)
    qed
    show "list_all (\<lambda>kv. fst (hd (asks_map (addressed_book e i books))) \<le> fst kv)
        (asks_map (addressed_book e i books))"
      unfolding bk_def [symmetric] list_all_iff
    proof
      fix kv assume "kv \<in> set (asks_map bk)"
      from sorted_hd_best [OF sa this]
      show "fst (hd (asks_map bk)) \<le> fst kv"
        by (auto simp: less_u64_def)
    qed
  }
qed


theorem get_best_prices_result_witness:
  "bids_map (addressed_book BYBIT ''BTCUSDT'' sample_manager) \<noteq> [] \<and>
   asks_map (addressed_book BYBIT ''BTCUSDT'' sample_manager) \<noteq> [] \<and>
   wf_book (addressed_book BYBIT ''BTCUSDT'' sample_manager) \<and>
   fst (get_best_prices BYBIT ''BTCUSDT'' zero_out zero_bbo sample_manager) = True \<and>
   fst (snd (get_best_prices BYBIT ''BTCUSDT'' zero_out zero_bbo sample_manager)) =
     \<lparr>out_bid_price = 0x4295D3FB65420000, out_bid_qty = d_1_5,
      out_ask_price = 0x4295D40751040000, out_ask_qty = d_0_5\<rparr> \<and>
   bids_map (addressed_book OKX ''BTC-USDT'' sample_manager) = [] \<and>
   fst (get_best_prices OKX ''BTC-USDT'' zero_out zero_bbo sample_manager) = False \<and>
   fst (snd (get_best_prices OKX ''BTC-USDT'' zero_out zero_bbo sample_manager)) = zero_out"
proof -
  have ne: "bids_map (addressed_book BYBIT ''BTCUSDT'' sample_manager) \<noteq> []"
    "asks_map (addressed_book BYBIT ''BTCUSDT'' sample_manager) \<noteq> []"
    by (simp_all add: addressed_sample sample_book_def)
  have wf: "wf_book (addressed_book BYBIT ''BTCUSDT'' sample_manager)"
    by (simp add: addressed_sample sample_book_def wf_book_def greater_u64_def less_u64_def)
  have em: "bids_map (addressed_book OKX ''BTC-USDT'' sample_manager) = []"
    by (simp add: addressed_sample empty_book_def)
  have hd: "hd (bids_map (addressed_book BYBIT ''BTCUSDT'' sample_manager)) = (6000050000000, d_1_5)"
    "hd (asks_map (addressed_book BYBIT ''BTCUSDT'' sample_manager)) = (6000100000000, d_0_5)"
    by (simp_all add: addressed_sample sample_book_def)
  show ?thesis
    using get_best_prices_result [of BYBIT "''BTCUSDT''" sample_manager zero_out zero_bbo]
      get_best_prices_result [of OKX "''BTC-USDT''" sample_manager zero_out zero_bbo]
      ne wf em
    by (simp add: hd u64_to_double_samples)
qed

section \<open>Properties of the WebSocket session\<close>

lemma armed_delays_append: "armed_delays (a @ b) = armed_delays a @ armed_delays b"
  by (induction a rule: armed_delays.induct) simp_all

lemma armed_delays_snoc_In [simp]: "armed_delays (tr @ [In c]) = armed_delays tr"
  by (simp add: armed_delays_append)

lemma armed_delays_snoc_Out:
  "armed_delays (tr @ [Out a]) =
     armed_delays tr @ (case a of Timer_expires_after d \<Rightarrow> [d] | _ \<Rightarrow> [])"
  by (cases a) (simp_all add: armed_delays_append)

lemma backoff_delay_ms_cong:
  "same_config s s' \<Longrightarrow> backoff_delay_ms s' k = backoff_delay_ms s k"
  by (simp add: backoff_delay_ms_def same_config_def Let_def cong: if_cong)

lemma schedule_reconnect_retry:
  assumes "retry_count s < retry_max_attempts s"
  shows "retry_count (schedule_reconnect s) = retry_count s + 1"
    and "connection_state (schedule_reconnect s) = WaitingRetry"
    and "pending (schedule_reconnect s) = Some Op_retry_timer"
    and "armed_delays (trace (schedule_reconnect s)) =
           armed_delays (trace s) @ [backoff_delay_ms s (retry_count s + 1)]"
    and "same_config s (schedule_reconnect s)"
    and "connected (schedule_reconnect s) = connected s"
  using assms
  by (simp_all add: schedule_reconnect_def Let_def emit_def armed_delays_snoc_Out
      same_config_def backoff_delay_ms_def cong: if_cong)

lemma schedule_reconnect_give_up:
  assumes "\<not> retry_count s < retry_max_attempts s"
  shows "retry_count (schedule_reconnect s) = retry_count s"
    and "connection_state (schedule_reconnect s) = Disconnected"
    and "pending (schedule_reconnect s) = None"
    and "armed_delays (trace (schedule_reconnect s)) = armed_delays (trace s)"
    and "same_config s (schedule_reconnect s)"
    and "connected (schedule_reconnect s) = connected s"
  using assms
  by (simp_all add: schedule_reconnect_def same_config_def)

text \<open>
  A failed attempt ends in \<open>schedule_reconnect\<close> of a state that agrees with the state
  before the attempt on everything the retry logic reads.
\<close>

lemma failed_attempt_ends_in_schedule:
  assumes "pending s = Some Op_retry_timer"
  shows "\<exists>s2. run (failed_attempt st) s = schedule_reconnect s2 \<and>
           same_config s s2 \<and> retry_count s2 = retry_count s \<and>
           connected s2 = connected s \<and>
           armed_delays (trace s2) = armed_delays (trace s)"
proof (cases st)
  case Fails_sni
  show ?thesis
    unfolding Fails_sni
    by (rule exI [of _ "emit Stream_created
            (s\<lparr>trace := trace s @ [In (TimerFired False)], connection_state := Connecting\<rparr>)"])
       (simp add: assms deliver_def attempt_reconnect_async_def Let_def emit_def same_config_def
          armed_delays_append)
next
  case Fails_resolve
  show ?thesis
    unfolding Fails_resolve
    apply (simp add: assms deliver_def attempt_reconnect_async_def on_resolve_def Let_def emit_def)
    apply (rule exI, rule conjI, rule refl)
    apply (simp add: same_config_def armed_delays_append)
    done
next
  case Fails_connect
  show ?thesis
    unfolding Fails_connect
    apply (simp add: assms deliver_def attempt_reconnect_async_def on_resolve_def on_connect_def
        Let_def emit_def)
    apply (rule exI, rule conjI, rule refl)
    apply (simp add: same_config_def armed_delays_append)
    done
next
  case Fails_ssl
  show ?thesis
    unfolding Fails_ssl
    apply (simp add: assms deliver_def attempt_reconnect_async_def on_resolve_def on_connect_def
        on_ssl_handshake_def Let_def emit_def)
    apply (rule exI, rule conjI, rule refl)
    apply (simp add: same_config_def armed_delays_append)
    done
next
  case Fails_handshake
  show ?thesis
    unfolding Fails_handshake
    apply (simp add: assms deliver_def attempt_reconnect_async_def on_resolve_def on_connect_def
        on_ssl_handshake_def on_handshake_def Let_def emit_def)
    apply (rule exI, rule conjI, rule refl)
    apply (simp add: same_config_def armed_delays_append)
    done
qed


lemma run_append: "run (a @ b) s = run b (run a s)"
  by (induction a arbitrary: s) simp_all

lemma same_config_refl [simp]: "same_config s s"
  by (simp add: same_config_def)

lemma same_config_trans: "same_config a b \<Longrightarrow> same_config b c \<Longrightarrow> same_config a c"
  by (simp add: same_config_def)

lemma failed_attempt_retry:
  assumes "pending s = Some Op_retry_timer" "retry_count s < retry_max_attempts s"
  shows "retry_count (run (failed_attempt st) s) = retry_count s + 1"
    and "connection_state (run (failed_attempt st) s) = WaitingRetry"
    and "pending (run (failed_attempt st) s) = Some Op_retry_timer"
    and "armed_delays (trace (run (failed_attempt st) s)) =
           armed_delays (trace s) @ [backoff_delay_ms s (retry_count s + 1)]"
    and "same_config s (run (failed_attempt st) s)"
    and "connected (run (failed_attempt st) s) = connected s"
proof -
  from failed_attempt_ends_in_schedule [OF assms(1), of st] obtain s2 where
    r: "run (failed_attempt st) s = schedule_reconnect s2"
    and c: "same_config s s2" and n: "retry_count s2 = retry_count s"
    and k: "connected s2 = connected s"
    and a: "armed_delays (trace s2) = armed_delays (trace s)"
    by blast
  have lt: "retry_count s2 < retry_max_attempts s2"
    using assms(2) c n by (simp add: same_config_def)
  note sr = schedule_reconnect_retry [OF lt]
  show "retry_count (run (failed_attempt st) s) = retry_count s + 1"
    using sr(1) by (simp add: r n)
  show "connection_state (run (failed_attempt st) s) = WaitingRetry"
    using sr(2) by (simp add: r)
  show "pending (run (failed_attempt st) s) = Some Op_retry_timer"
    using sr(3) by (simp add: r)
  show "armed_delays (trace (run (failed_attempt st) s)) =
           armed_delays (trace s) @ [backoff_delay_ms s (retry_count s + 1)]"
    using sr(4) by (simp add: r n a backoff_delay_ms_cong [OF c])
  show "same_config s (run (failed_attempt st) s)"
    using sr(5) c by (simp add: r same_config_trans)
  show "connected (run (failed_attempt st) s) = connected s"
    using sr(6) by (simp add: r k)
qed

lemma failed_attempt_give_up:
  assumes "pending s = Some Op_retry_timer" "\<not> retry_count s < retry_max_attempts s"
  shows "retry_count (run (failed_attempt st) s) = retry_count s"
    and "connection_state (run (failed_attempt st) s) = Disconnected"
    and "pending (run (failed_attempt st) s) = None"
    and "armed_delays (trace (run (failed_attempt st) s)) = armed_delays (trace s)"
    and "connected (run (failed_attempt st) s) = connected s"
proof -
  from failed_attempt_ends_in_schedule [OF assms(1), of st] obtain s2 where
    r: "run (failed_attempt st) s = schedule_reconnect s2"
    and c: "same_config s s2" and n: "retry_count s2 = retry_count s"
    and k: "connected s2 = connected s"
    and a: "armed_delays (trace s2) = armed_delays (trace s)"
    by blast
  have ge: "\<not> retry_count s2 < retry_max_attempts s2"
    using assms(2) c n by (simp add: same_config_def)
  note sr = schedule_reconnect_give_up [OF ge]
  show "retry_count (run (failed_attempt st) s) = retry_count s"
    using sr(1) by (simp add: r n)
  show "connection_state (run (failed_attempt st) s) = Disconnected"
    using sr(2) by (simp add: r)
  show "pending (run (failed_attempt st) s) = None"
    using sr(3) by (simp add: r)
  show "armed_delays (trace (run (failed_attempt st) s)) = armed_delays (trace s)"
    using sr(4) by (simp add: r a)
  show "connected (run (failed_attempt st) s) = connected s"
    using sr(6) by (simp add: r k)
qed

lemma failed_attempts_retry:
  assumes "pending s = Some Op_retry_timer"
    and "retry_count s + int (length stages) \<le> retry_max_attempts s"
  shows "retry_count (run (failed_attempts stages) s) = retry_count s + int (length stages) \<and>
         pending (run (failed_attempts stages) s) = Some Op_retry_timer \<and>
         same_config s (run (failed_attempts stages) s) \<and>
         connected (run (failed_attempts stages) s) = connected s \<and>
         armed_delays (trace (run (failed_attempts stages) s)) =
           armed_delays (trace s) @
           map (\<lambda>k. backoff_delay_ms s (retry_count s + 1 + int k)) [0..<length stages]"
  using assms
proof (induction stages arbitrary: s)
  case Nil
  then show ?case by (simp add: failed_attempts_def)
next
  case (Cons st stages)
  define s1 where "s1 = run (failed_attempt st) s"
  have lt: "retry_count s < retry_max_attempts s"
    using Cons.prems(2) by simp
  note fa = failed_attempt_retry [OF Cons.prems(1) lt, of st, folded s1_def]
  have le: "retry_count s1 + int (length stages) \<le> retry_max_attempts s1"
    using Cons.prems(2) fa(1) fa(5) by (simp add: same_config_def)
  note ih = Cons.IH [OF fa(3) le]
  have split: "run (failed_attempts (st # stages)) s = run (failed_attempts stages) s1"
    by (simp add: failed_attempts_def run_append s1_def)
  have shift: "map (\<lambda>k. backoff_delay_ms s (retry_count s + 1 + int k)) [0..<length (st # stages)] =
     backoff_delay_ms s (retry_count s + 1) #
     map (\<lambda>k. backoff_delay_ms s1 (retry_count s1 + 1 + int k)) [0..<length stages]"
  proof -
    have u: "[0..<length (st # stages)] = 0 # map Suc [0..<length stages]"
      by (simp add: upt_conv_Cons map_Suc_upt del: upt_Suc)
    have "backoff_delay_ms s (retry_count s + 1 + int (Suc k)) =
          backoff_delay_ms s1 (retry_count s1 + 1 + int k)" for k
      by (simp add: fa(1) backoff_delay_ms_cong [OF fa(5)] algebra_simps)
    then show ?thesis
      unfolding u by (simp add: o_def del: upt_Suc of_nat_Suc)
  qed
  show ?case
    unfolding split shift
    using ih fa(1) fa(4) fa(5) fa(6) by (auto intro: same_config_trans)
qed

lemma deliver_idle: "pending s = None \<Longrightarrow> deliver c s = s"
  by (simp add: deliver_def)

lemma run_idle: "pending s = None \<Longrightarrow> run cs s = s"
  by (induction cs) (simp_all add: deliver_idle)

lemma backoff_reference_values:
  "map (backoff_delay_ms reference_client) [1, 2, 3, 4, 5, 6, 7, 8, 9, 10] =
     [1000, 2000, 4000, 8000, 16000, 30000, 30000, 30000, 30000, 30000]"
  by (simp add: backoff_delay_ms_def reference_client_def backoff_loop.simps long_of_double_def)

lemma spec_delay_values:
  "map spec_delay_ms [1..<11] =
     [1000, 2000, 4000, 8000, 16000, 30000, 30000, 30000, 30000, 30000]"
  by (simp add: spec_delay_ms_def upt_conv_Cons)

lemma connect_failed_reference:
  "retry_count (snd (connect False reference_client)) = 1"
  "pending (snd (connect False reference_client)) = Some Op_retry_timer"
  "connected (snd (connect False reference_client)) = False"
  "same_config reference_client (snd (connect False reference_client))"
  "armed_delays (trace (snd (connect False reference_client))) =
     [backoff_delay_ms reference_client 1]"
  by (simp_all add: connect_def schedule_reconnect_def reference_client_def Let_def emit_def
      same_config_def backoff_delay_ms_def)

text \<open>
  C4.  With the reference retry parameters (initial 1000 ms, multiplier 2.0, ceiling
  30000 ms, 10 attempts), let the connection fail and then every one of the reconnect
  attempts fail, each at whatever stage.  The delays the session arms its timer with
  are 1000, 2000, 4000, 8000, 16000, 30000, 30000, 30000, 30000, 30000 ms, that is
  \<open>min(1000 \<times> 2^(k-1), 30000)\<close> for the \<open>k\<close>-th consecutive failure; when the tenth
  attempt has failed nothing more is scheduled, the state is \<open>Disconnected\<close>, and no
  completion changes the session any more.
\<close>

theorem backoff_schedule_reference:
  assumes "length stages = 10"
  shows "armed_delays (trace (run (failed_attempts stages) (snd (connect False reference_client))))
           = [1000, 2000, 4000, 8000, 16000, 30000, 30000, 30000, 30000, 30000] \<and>
         armed_delays (trace (run (failed_attempts stages) (snd (connect False reference_client))))
           = map spec_delay_ms [1..<11] \<and>
         connection_state (run (failed_attempts stages) (snd (connect False reference_client)))
           = Disconnected \<and>
         pending (run (failed_attempts stages) (snd (connect False reference_client))) = None \<and>
         \<not> connected (run (failed_attempts stages) (snd (connect False reference_client))) \<and>
         (\<forall>cs. run cs (run (failed_attempts stages) (snd (connect False reference_client)))
                = run (failed_attempts stages) (snd (connect False reference_client)))"
proof -
  define s1 where "s1 = snd (connect False reference_client)"
  define front where "front = butlast stages"
  define st where "st = last stages"
  have ne: "stages \<noteq> []" using assms by auto
  have stages: "stages = front @ [st]"
    using ne by (simp add: front_def st_def)
  have lf: "length front = 9"
    using assms by (simp add: front_def)
  note c = connect_failed_reference [folded s1_def]
  have cfg: "retry_max_attempts s1 = 10"
    using c(4) by (simp add: same_config_def reference_client_def)
  have le: "retry_count s1 + int (length front) \<le> retry_max_attempts s1"
    by (simp add: c(1) lf cfg)
  define s10 where "s10 = run (failed_attempts front) s1"
  from failed_attempts_retry [OF c(2) le, folded s10_def]
  have n10: "retry_count s10 = 10" and p10: "pending s10 = Some Op_retry_timer"
    and c10: "same_config s1 s10" and k10: "connected s10 = False"
    and a10: "armed_delays (trace s10) =
           armed_delays (trace s1) @
           map (\<lambda>k. backoff_delay_ms s1 (retry_count s1 + 1 + int k)) [0..<length front]"
    by (simp_all add: c(1) c(3) lf)
  have bo: "backoff_delay_ms s1 k = backoff_delay_ms reference_client k" for k
    by (rule backoff_delay_ms_cong [OF c(4)])
  have "armed_delays (trace s10) =
          map (backoff_delay_ms reference_client) [1, 2, 3, 4, 5, 6, 7, 8, 9, 10]"
    unfolding a10 by (simp add: c(1) c(5) lf bo upt_conv_Cons)
  then have delays: "armed_delays (trace s10) =
          [1000, 2000, 4000, 8000, 16000, 30000, 30000, 30000, 30000, 30000]"
    by (simp only: backoff_reference_values)
  have ge: "\<not> retry_count s10 < retry_max_attempts s10"
    using n10 c10 cfg by (simp add: same_config_def)
  define s11 where "s11 = run (failed_attempt st) s10"
  note g = failed_attempt_give_up [OF p10 ge, of st, folded s11_def]
  have fin: "run (failed_attempts stages) (snd (connect False reference_client)) = s11"
    by (simp add: stages failed_attempts_def run_append s11_def s10_def s1_def)
  show ?thesis
    unfolding fin
    using g delays k10 run_idle [OF g(3)] spec_delay_values by simp
qed

theorem backoff_schedule_reference_witness:
  "length [Fails_connect, Fails_resolve, Fails_sni, Fails_ssl, Fails_handshake,
           Fails_connect, Fails_connect, Fails_resolve, Fails_ssl, Fails_handshake] = 10 \<and>
   armed_delays (trace (run (failed_attempts
          [Fails_connect, Fails_resolve, Fails_sni, Fails_ssl, Fails_handshake,
           Fails_connect, Fails_connect, Fails_resolve, Fails_ssl, Fails_handshake])
        (snd (connect False reference_client))))
     = [1000, 2000, 4000, 8000, 16000, 30000, 30000, 30000, 30000, 30000] \<and>
   connection_state (run (failed_attempts
          [Fails_connect, Fails_resolve, Fails_sni, Fails_ssl, Fails_handshake,
           Fails_connect, Fails_connect, Fails_resolve, Fails_ssl, Fails_handshake])
        (snd (connect False reference_client))) = Disconnected"
  using backoff_schedule_reference
         [of "[Fails_connect, Fails_resolve, Fails_sni, Fails_ssl, Fails_handshake,
               Fails_connect, Fails_connect, Fails_resolve, Fails_ssl, Fails_handshake]"]
  by simp











lemma callback_ordered_rejects_early_message:
  "\<not> callback_ordered [Out Stream_created, In (HandshakeDone True), Out (Enqueued msg),
                         Out On_reconnect_called]"
  by (simp add: callback_ordered_def)


lemma reconnect_run_trace:
  "trace (run reconnect_run connected_client) =
     [In (ReadDone (Some ''a'')), Out (Enqueued ''a''), Out Async_read,
      In (ReadDone None), Out (Timer_expires_after 1000),
      In (TimerFired True), Out Stream_created, Out Async_resolve,
      In (ResolveDone True), Out Async_connect,
      In (ConnectDone True), Out Async_ssl_handshake,
      In (SslHandshakeDone True), Out Async_ws_handshake,
      In (HandshakeDone True), Out On_reconnect_called, Out Async_read,
      In (ReadDone (Some ''b'')), Out (Enqueued ''b''), Out Async_read]"
  by (simp add: reconnect_run_def connected_client_def reference_client_def deliver_def
      on_read_def do_read_def emit_def schedule_reconnect_def attempt_reconnect_async_def
      on_resolve_def on_connect_def on_ssl_handshake_def on_handshake_def Let_def
      backoff_delay_ms_def backoff_loop.simps long_of_double_def MAX_INCOMING_QUEUE_SIZE_def)


end
